(* ===== verification/Base_Prelude.thy ===== *)
theory Base_Prelude
  imports Main "HOL-Library.Word" "HOL-Library.Char_ord" "HOL-Library.List_Lexorder"
begin

unbundle bit_operations_syntax

text \<open>
  The conventions every other theory of the development uses.

  \<^item> A C++ \<open>std::string\<close>, \<open>std::string_view\<close> or \<open>const char *\<close> with a length is a
    \<open>string\<close>: Isabelle's characters are exactly the 256 byte values.
  \<^item> A \<open>uint8_t\<close> is a \<open>byte\<close>, a word of eight bits; the casts between the two readings of a
    byte are \<open>byte_of_char\<close> and \<open>char_of_byte\<close>.
  \<^item> A plain \<open>char\<close> is signed on the platforms the library is built for (x86-64, Linux), so an
    arithmetic comparison of a \<open>char\<close> reads it through \<open>schar\<close>, between -128 and 127.
  \<^item> A branch of the code that leaves the language (an uncaught exception, an access outside a
    buffer, a null dereference, a lock taken twice by its owner) is a value of \<open>fault\<close>, and a
    definition that can reach one returns \<open>fault + 'a\<close>.
\<close>

section \<open>Named collections\<close>

named_theorems char_simps \<open>how the character tests of the code read a byte\<close>
named_theorems frame_simps \<open>which fields of a state an operation leaves alone\<close>

section \<open>Faults\<close>

datatype fault =
    OutOfRange         \<comment> \<open>\<open>std::out_of_range\<close> from \<open>at\<close> or \<open>substr\<close>\<close>
  | InvalidArgument    \<comment> \<open>\<open>std::invalid_argument\<close> from \<open>std::stoi\<close>\<close>
  | BadAccess          \<comment> \<open>a read or write outside its object\<close>
  | LengthError        \<comment> \<open>\<open>std::length_error\<close> from \<open>std::string::reserve\<close>\<close>
  | NullDeref          \<comment> \<open>a dereference of an empty smart pointer\<close>
  | SelfDeadlock       \<comment> \<open>a \<open>std::mutex\<close> locked again by the thread that owns it\<close>
  | BadCast            \<comment> \<open>a floating-point value cast to an integer type it does not fit\<close>
  | AssertFailed       \<comment> \<open>a failing \<open>assert\<close>\<close>
  | BadAlloc           \<comment> \<open>\<open>std::bad_alloc\<close>: memory is exhausted\<close>
  | BadCall            \<comment> \<open>a call of an empty \<open>std::function\<close>\<close>

fun and_then :: "fault + 'a \<Rightarrow> ('a \<Rightarrow> fault + 'b) \<Rightarrow> fault + 'b" where
  "and_then (Inl e) f = Inl e"
| "and_then (Inr a) f = f a"

lemma and_then_Inr_iff:
  "and_then m f = Inr b \<longleftrightarrow> (\<exists>a. m = Inr a \<and> f a = Inr b)"
  by (cases m) auto

lemma and_then_cong [fundef_cong]:
  assumes "m = m'" and "\<And>a. m' = Inr a \<Longrightarrow> f a = g a"
  shows "and_then m f = and_then m' g"
  using assms by (cases m') auto

section \<open>Bytes and characters\<close>

type_synonym byte = "8 word"

definition byte_of_char :: "char \<Rightarrow> byte" where
  "byte_of_char c = of_nat (of_char c)"

definition char_of_byte :: "byte \<Rightarrow> char" where
  "char_of_byte b = char_of (unat b)"

definition schar :: "char \<Rightarrow> int" where
  "schar c = (let n = of_char c in if n < 128 then n else n - 256)"

lemma schar_int:
  "schar c = (if of_char c < (128 :: nat) then int (of_char c) else int (of_char c) - 256)"
  unfolding schar_def Let_def by (simp add: of_nat_of_char [symmetric, where ?'a = int] del: of_nat_of_char)

lemma unat_byte_of_char [simp]: "unat (byte_of_char c) = of_char c"
  by (simp add: byte_of_char_def unat_of_nat)

lemma unat_byte_less [simp]: "unat (b :: byte) < 256"
  using unsigned_less [of b] by simp

lemma char_of_byte_of_char [simp]: "char_of_byte (byte_of_char c) = c"
  by (simp add: char_of_byte_def)

lemma byte_of_char_of_byte [simp]: "byte_of_char (char_of_byte b) = b"
  by (simp add: byte_of_char_def char_of_byte_def of_char_of)

lemma of_char_of_byte [simp]: "of_char (char_of_byte b) = unat b"
  by (simp add: char_of_byte_def of_char_of)

lemma map_byte_round_trip [simp]:
  "map char_of_byte (map byte_of_char s) = s"
  "map byte_of_char (map char_of_byte bs) = bs"
  by (simp_all add: comp_def)

abbreviation bytes :: "string \<Rightarrow> byte list" where
  "bytes s \<equiv> map byte_of_char s"

lemma byte_of_char_eq_iff [simp]: "byte_of_char c = byte_of_char d \<longleftrightarrow> c = d"
  by (metis char_of_byte_of_char)

lemma bytes_eq_iff [simp]: "bytes s = bytes t \<longleftrightarrow> s = t"
  by (metis map_byte_round_trip(1))

text \<open>
  A range test \<open>lo <= c && c <= hi\<close> on a signed \<open>char\<close> whose limits are ASCII holds of the
  same characters as the unsigned one: the bytes above 127 are negative, below any ASCII limit.
\<close>

definition sbetween :: "char \<Rightarrow> char \<Rightarrow> char \<Rightarrow> bool" where
  "sbetween lo hi c \<longleftrightarrow> schar lo \<le> schar c \<and> schar c \<le> schar hi"

lemma sbetween_ascii:
  assumes "of_char lo < (128 :: nat)" and "of_char hi < (128 :: nat)"
  shows "sbetween lo hi c \<longleftrightarrow> lo \<le> c \<and> c \<le> hi"
proof -
  have int_eq: "(of_char x :: int) = int (of_char x)" for x
    by (rule of_nat_of_char [symmetric])
  define k where "k = (of_char c :: nat)"
  have "k < 256"
    by (simp add: k_def)
  then show ?thesis
    using assms
    unfolding sbetween_def schar_def Let_def int_eq less_eq_char_def k_def [symmetric]
    by auto
qed

section \<open>Decimal numerals\<close>

definition is_dec :: "char \<Rightarrow> bool" where
  "is_dec c \<longleftrightarrow> CHR ''0'' \<le> c \<and> c \<le> CHR ''9''"

definition dec_digit :: "char \<Rightarrow> nat" where
  "dec_digit c = of_char c - 48"

definition decimal :: "string \<Rightarrow> nat" where
  "decimal s = foldl (\<lambda>n c. 10 * n + dec_digit c) 0 s"

lemma is_dec_iff: "is_dec c \<longleftrightarrow> 48 \<le> (of_char c :: nat) \<and> (of_char c :: nat) \<le> 57"
  by (simp add: is_dec_def less_eq_char_def)

lemma dec_digit_le_9: "is_dec c \<Longrightarrow> dec_digit c \<le> 9"
  unfolding is_dec_iff dec_digit_def by arith

lemma decimal_Nil [simp]: "decimal [] = 0"
  by (simp add: decimal_def)

lemma decimal_snoc [simp]: "decimal (s @ [c]) = 10 * decimal s + dec_digit c"
  by (simp add: decimal_def)

lemma foldl_decimal:
  "foldl (\<lambda>n c. 10 * n + dec_digit c) k s = k * 10 ^ length s + decimal s"
proof (induction s rule: rev_induct)
  case Nil
  then show ?case by simp
next
  case (snoc c s)
  then show ?case by (simp add: algebra_simps)
qed

lemma decimal_Cons: "decimal (c # s) = dec_digit c * 10 ^ length s + decimal s"
  using foldl_decimal [of "dec_digit c" s] by (simp add: decimal_def)

lemma decimal_append: "decimal (s @ t) = decimal s * 10 ^ length t + decimal t"
  using foldl_decimal [of "decimal s" t] by (simp add: decimal_def)

lemma decimal_less: "\<forall>c\<in>set s. is_dec c \<Longrightarrow> decimal s < 10 ^ length s"
proof (induction s rule: rev_induct)
  case Nil
  then show ?case by simp
next
  case (snoc c s)
  then have "decimal s < 10 ^ length s" and "dec_digit c \<le> 9"
    by (auto simp: dec_digit_le_9)
  then show ?case by simp
qed

text \<open>The numeral of a number, most significant digit first, as a plain recursion.\<close>

definition digit_char :: "nat \<Rightarrow> char" where
  "digit_char d = char_of (d + 48)"

fun numeral_of :: "nat \<Rightarrow> string" where
  "numeral_of n = (if n < 10 then [digit_char n] else numeral_of (n div 10) @ [digit_char (n mod 10)])"

declare numeral_of.simps [simp del]

lemma of_char_digit_char: "d < 10 \<Longrightarrow> of_char (digit_char d) = d + 48"
  by (simp add: digit_char_def of_char_of)

lemma digit_char_numeral [char_simps]:
  "digit_char 0 = CHR ''0''" "digit_char 1 = CHR ''1''" "digit_char (Suc 0) = CHR ''1''"
  "digit_char 2 = CHR ''2''" "digit_char 3 = CHR ''3''" "digit_char 4 = CHR ''4''"
  "digit_char 5 = CHR ''5''" "digit_char 6 = CHR ''6''" "digit_char 7 = CHR ''7''"
  "digit_char 8 = CHR ''8''" "digit_char 9 = CHR ''9''"
  by code_simp+

lemma is_dec_digit_char [simp]: "d < 10 \<Longrightarrow> is_dec (digit_char d)"
  by (simp add: is_dec_iff of_char_digit_char)

lemma dec_digit_digit_char [simp]: "d < 10 \<Longrightarrow> dec_digit (digit_char d) = d"
  by (simp add: dec_digit_def of_char_digit_char)

lemma numeral_of_nonempty [simp]: "numeral_of n \<noteq> []"
  by (subst numeral_of.simps) simp

lemma numeral_of_digits: "\<forall>c\<in>set (numeral_of n). is_dec c"
proof (induction n rule: numeral_of.induct)
  case (1 n)
  then show ?case by (subst numeral_of.simps) auto
qed

lemma decimal_numeral_of [simp]: "decimal (numeral_of n) = n"
proof (induction n rule: numeral_of.induct)
  case (1 n)
  show ?case
  proof (cases "n < 10")
    case True
    then show ?thesis by (simp add: numeral_of.simps [of n] decimal_Cons)
  next
    case False
    with 1 show ?thesis by (simp add: numeral_of.simps [of n])
  qed
qed

section \<open>Lists\<close>

lemma takeWhile_append_stop:
  "\<forall>x\<in>set xs. P x \<Longrightarrow> (ys = [] \<or> \<not> P (hd ys)) \<Longrightarrow> takeWhile P (xs @ ys) = xs"
  by (induction xs) (cases ys, auto)

lemma take_append_length [simp]: "take (length xs) (xs @ ys) = xs"
  by simp

end
