(* ===== verification/Text_Utils.thy ===== *)
theory Text_Utils
  imports Base_Prelude
begin

text \<open>
  The pure helpers of \<open>include/utilities.h\<close> (namespace \<open>utils::string\<close>) and of
  \<open>include/sessionutil.h\<close> (namespace \<open>network::session_utils\<close>): string comparison, splitting,
  upper-casing, decimal printing and parsing, percent decoding and the ALPN identifier test.
  \<open>parse_uint\<close> keeps the source's 64-bit signed arithmetic: every sum and product is reduced by
  \<open>s64\<close>, and the lemmas show that the guards of the code keep the reduction from ever acting.
\<close>

section \<open>utils::string\<close>

definition streq :: "'a list \<Rightarrow> 'a list \<Rightarrow> bool" where
  "streq a b = (if length a \<noteq> length b then False else list_all2 (=) a b)"

definition streq_l :: "string \<Rightarrow> byte list \<Rightarrow> nat \<Rightarrow> bool" where
  "streq_l a b blen = streq (bytes a) (take blen b)"

lemma streq_iff [simp]: "streq a b \<longleftrightarrow> a = b"
  by (auto simp: streq_def list.rel_eq)

definition toupper :: "char \<Rightarrow> char" where
  "toupper c = (if CHR ''a'' \<le> c \<and> c \<le> CHR ''z'' then char_of (of_char c - 32 :: nat) else c)"

definition to_upper :: "string \<Rightarrow> string" where
  "to_upper s = map toupper s"

lemma toupper_idem [simp]: "toupper (toupper c) = toupper c"
proof -
  have "\<forall>c. toupper (toupper c) = toupper c"
    by code_simp
  then show ?thesis by blast
qed

text \<open>
  \<open>find_first_of\<close> answers \<open>npos\<close> (here \<open>None\<close>) when the character does not occur from \<open>pos\<close> on.
  \<open>split\<close> tests that answer as a truth value: \<open>npos\<close> counts as true, position 0 as false.
\<close>

fun index_from :: "char \<Rightarrow> nat \<Rightarrow> string \<Rightarrow> nat option" where
  "index_from c i [] = None"
| "index_from c i (x # xs) = (if x = c then Some i else index_from c (Suc i) xs)"

definition find_first_of :: "string \<Rightarrow> char \<Rightarrow> nat \<Rightarrow> nat option" where
  "find_first_of s c pos = index_from c pos (drop pos s)"

definition substr :: "string \<Rightarrow> nat \<Rightarrow> nat option \<Rightarrow> fault + string" where
  "substr s pos n =
     (if length s < pos then Inl OutOfRange
      else Inr (case n of None \<Rightarrow> drop pos s | Some k \<Rightarrow> take k (drop pos s)))"

definition split :: "string \<Rightarrow> char \<Rightarrow> nat \<Rightarrow> fault + string \<times> string" where
  "split s splitter pos =
     (if s = [] then Inr ([], [])
      else case find_first_of s splitter pos of
        Some 0 \<Rightarrow> Inr (s, [])
      | Some p \<Rightarrow>
          and_then (substr s pos (Some p)) (\<lambda>l.
          and_then (substr s (p + 1) (Some (length s))) (\<lambda>r. Inr (l, r)))
      | None \<Rightarrow>
          and_then (substr s pos None) (\<lambda>l.
          and_then (substr s 0 (Some (length s))) (\<lambda>r. Inr (l, r))))"

lemma index_from_Some:
  "c \<notin> set xs \<Longrightarrow> index_from c i (xs @ c # ys) = Some (i + length xs)"
  by (induction xs arbitrary: i) auto

lemma index_from_None [simp]: "index_from c i xs = None \<longleftrightarrow> c \<notin> set xs"
  by (induction xs arbitrary: i) auto

text \<open>Where the separator is found after a non-empty first part, \<open>split\<close> cuts the string there.\<close>

lemma split_found:
  assumes "a \<noteq> []" and "c \<notin> set a"
  shows "split (a @ c # b) c 0 = Inr (a, b)"
proof -
  have "find_first_of (a @ c # b) c 0 = Some (length a)"
    using assms(2) by (simp add: find_first_of_def index_from_Some)
  moreover obtain n where "length a = Suc n"
    using assms(1) by (cases a) auto
  ultimately show ?thesis
    by (simp add: split_def substr_def)
qed

section \<open>session_utils: decimal printing\<close>

fun utos_nlen :: "nat \<Rightarrow> nat" where
  "utos_nlen t = (if t = 0 then 0 else Suc (utos_nlen (t div 10)))"

fun utos_fill :: "string \<Rightarrow> nat \<Rightarrow> nat \<Rightarrow> string" where
  "utos_fill res nlen n =
     (if n = 0 then res
      else utos_fill (res[nlen - 1 := char_of (n mod 10 + 48)]) (nlen - 1) (n div 10))"

definition utos :: "nat \<Rightarrow> string" where
  "utos n =
     (if n = 0 then ''0''
      else utos_fill (replicate (utos_nlen n) (CHR 0x00)) (utos_nlen n) n)"

declare utos_nlen.simps [simp del] utos_fill.simps [simp del]

lemma utos_nlen_numeral: "0 < n \<Longrightarrow> utos_nlen n = length (numeral_of n)"
proof (induction n rule: numeral_of.induct)
  case (1 n)
  show ?case
  proof (cases "n < 10")
    case True
    then have "n div 10 = 0" by simp
    with True "1.prems" show ?thesis
      by (simp add: utos_nlen.simps [of n] utos_nlen.simps [of 0] numeral_of.simps [of n])
  next
    case False
    then have "0 < n div 10" by simp
    with False 1 show ?thesis
      by (simp add: utos_nlen.simps [of n] numeral_of.simps [of n])
  qed
qed

text \<open>The filling loop writes the numeral into the last \<open>nlen\<close> cells it has not written yet.\<close>

lemma utos_fill_numeral:
  "0 < n \<Longrightarrow> nlen = length (numeral_of n) \<Longrightarrow> length pre = nlen \<Longrightarrow>
     utos_fill (pre @ done) nlen n = numeral_of n @ done"
proof (induction n arbitrary: nlen pre "done" rule: numeral_of.induct)
  case (1 n)
  obtain p x where pre: "pre = p @ [x]"
    using "1.prems" by (cases pre rule: rev_cases) auto
  have last: "nlen - 1 = length p"
    using "1.prems"(3) pre by simp
  have upd: "(pre @ done)[nlen - 1 := y] = p @ y # done" for y
    unfolding last by (simp add: pre list_update_append)
  show ?case
  proof (cases "n < 10")
    case True
    then have "p = []"
      using "1.prems" pre by (simp add: numeral_of.simps [of n])
    then show ?thesis
      using True "1.prems"(1) upd
      by (simp add: utos_fill.simps [of _ _ n] utos_fill.simps [of _ _ 0]
          numeral_of.simps [of n] digit_char_def)
  next
    case False
    then have len: "nlen - 1 = length (numeral_of (n div 10))" "length p = nlen - 1"
      using "1.prems" pre by (simp_all add: numeral_of.simps [of n])
    have "utos_fill (p @ digit_char (n mod 10) # done) (nlen - 1) (n div 10) =
        numeral_of (n div 10) @ digit_char (n mod 10) # done"
      using "1.IH" [OF False, of "nlen - 1" p] False len by simp
    then show ?thesis
      using False "1.prems"(1) upd
      by (simp add: utos_fill.simps [of _ _ n] numeral_of.simps [of n] digit_char_def)
  qed
qed

lemma utos_numeral: "utos n = numeral_of n"
proof (cases "n = 0")
  case True
  then show ?thesis
    by (simp add: utos_def numeral_of.simps digit_char_def) code_simp
next
  case False
  then show ?thesis
    using utos_fill_numeral [of n "utos_nlen n" "replicate (utos_nlen n) (CHR 0x00)" "[]"]
    by (simp add: utos_def utos_nlen_numeral)
qed

section \<open>session_utils: hexadecimal digits and percent decoding\<close>

definition is_digit :: "char \<Rightarrow> bool" where
  "is_digit c \<longleftrightarrow> sbetween CHR ''0'' CHR ''9'' c"

definition is_hex_digit :: "char \<Rightarrow> bool" where
  "is_hex_digit c \<longleftrightarrow> is_digit c \<or> sbetween CHR ''A'' CHR ''F'' c \<or> sbetween CHR ''a'' CHR ''f'' c"

definition hex_to_uint :: "char \<Rightarrow> 32 word" where
  "hex_to_uint c =
     (if schar c \<le> schar CHR ''9'' then word_of_int (schar c - schar CHR ''0'')
      else if schar c \<le> schar CHR ''Z'' then word_of_int (schar c - schar CHR ''A'' + 10)
      else if schar c \<le> schar CHR ''z'' then word_of_int (schar c - schar CHR ''a'' + 10)
      else 256)"

fun percent_decode :: "string \<Rightarrow> string" where
  "percent_decode [] = []"
| "percent_decode (c # cs) =
     (if c \<noteq> CHR ''%'' then c # percent_decode cs
      else case cs of
        a # b # rest \<Rightarrow>
          (if is_hex_digit a \<and> is_hex_digit b
           then char_of (unat (push_bit 4 (hex_to_uint a) + hex_to_uint b)) # percent_decode rest
           else c # percent_decode cs)
      | _ \<Rightarrow> c # percent_decode cs)"

lemma is_digit_iff [char_simps]: "is_digit c \<longleftrightarrow> is_dec c"
  by (simp add: is_digit_def is_dec_def sbetween_ascii)

lemma is_hex_digit_iff [char_simps]:
  "is_hex_digit c \<longleftrightarrow>
     is_dec c \<or> CHR ''A'' \<le> c \<and> c \<le> CHR ''F'' \<or> CHR ''a'' \<le> c \<and> c \<le> CHR ''f''"
  by (simp add: is_hex_digit_def is_digit_iff sbetween_ascii)

lemma hex_to_uint_less_16: "is_hex_digit c \<Longrightarrow> hex_to_uint c < 16"
proof -
  have "\<forall>c. is_hex_digit c \<longrightarrow> hex_to_uint c < 16"
    by code_simp
  then show "is_hex_digit c \<Longrightarrow> hex_to_uint c < 16" by blast
qed

text \<open>
  The code writes into a buffer as long as its input and cuts it at the end: it never needs more.
\<close>

lemma length_percent_decode: "length (percent_decode s) \<le> length s"
  by (induction s rule: percent_decode.induct) (auto split: list.splits, simp add: le_SucI)

lemma percent_decode_plain: "CHR ''%'' \<notin> set s \<Longrightarrow> percent_decode s = s"
  by (induction s) auto

lemma percent_decode_triple:
  "is_hex_digit a \<Longrightarrow> is_hex_digit b \<Longrightarrow>
   percent_decode (CHR ''%'' # a # b # rest) =
     char_of (unat (push_bit 4 (hex_to_uint a) + hex_to_uint b)) # percent_decode rest"
  by simp

section \<open>session_utils: parsing an unsigned number\<close>

definition s64 :: "int \<Rightarrow> int" where
  "s64 x = signed_take_bit 63 x"

definition int64_max :: int where
  "int64_max = 9223372036854775807"

definition is_digit_byte :: "byte \<Rightarrow> bool" where
  "is_digit_byte b \<longleftrightarrow> 48 \<le> b \<and> b \<le> 57"

fun parse_uint_loop :: "byte list \<Rightarrow> nat \<Rightarrow> int \<Rightarrow> int \<times> nat" where
  "parse_uint_loop [] i n = (if i = 0 then (-1, 0) else (n, i))"
| "parse_uint_loop (b # bs) i n =
     (if is_digit_byte b then
        (if n > int64_max div 10 then (-1, 0)
         else let n = s64 (n * 10); d = uint b - 48 in
           if n > int64_max - d then (-1, 0)
           else parse_uint_loop bs (Suc i) (s64 (n + d)))
      else if i = 0 then (-1, 0) else (n, i))"

definition parse_uint_digits :: "byte list \<Rightarrow> int \<times> nat" where
  "parse_uint_digits s = (if length s = 0 then (-1, 0) else parse_uint_loop s 0 0)"

definition parse_uint :: "byte list \<Rightarrow> int" where
  "parse_uint s =
     (case parse_uint_digits s of (n, i) \<Rightarrow> if n = -1 \<or> i \<noteq> length s then -1 else n)"

lemma s64_id: "0 \<le> x \<Longrightarrow> x \<le> int64_max \<Longrightarrow> s64 x = x"
  by (simp add: s64_def int64_max_def signed_take_bit_int_eq_self)

lemma is_digit_byte_iff: "is_digit_byte (byte_of_char c) \<longleftrightarrow> is_dec c"
  by (simp add: is_digit_byte_def is_dec_iff word_le_nat_alt)

lemma uint_byte_of_char: "uint (byte_of_char c) = int (of_char c)"
  by (metis uint_nat unat_byte_of_char)

lemma parse_uint_loop_step:
  assumes "is_dec c" and "0 \<le> n" and "n \<le> int64_max"
  shows "parse_uint_loop (byte_of_char c # bs) i n =
     (if 10 * n + int (dec_digit c) \<le> int64_max
      then parse_uint_loop bs (Suc i) (10 * n + int (dec_digit c)) else (-1, 0))"
proof -
  have d: "uint (byte_of_char c) - 48 = int (dec_digit c)" "dec_digit c \<le> 9"
    using assms(1) dec_digit_le_9 [OF assms(1)]
    by (simp_all add: uint_byte_of_char dec_digit_def is_dec_iff)
  show ?thesis
  proof (cases "n > int64_max div 10")
    case True
    then show ?thesis
      using assms by (auto simp: is_digit_byte_iff int64_max_def)
  next
    case False
    then have "s64 (n * 10) = n * 10"
      using assms(2) by (intro s64_id) (auto simp: int64_max_def)
    then show ?thesis
      using False assms d
      by (auto simp: is_digit_byte_iff Let_def d(1) s64_id algebra_simps)
  qed
qed

text \<open>
  The loop over a string that is digits up to its end: it returns the value of the whole numeral
  and its length, or fails where that value does not fit a signed 64-bit integer.
\<close>

lemma parse_uint_loop_digits:
  "\<forall>c\<in>set t. is_dec c \<Longrightarrow> 0 \<le> n \<Longrightarrow> n \<le> int64_max \<Longrightarrow> t \<noteq> [] \<or> i \<noteq> 0 \<Longrightarrow>
   parse_uint_loop (bytes t) i n =
     (let v = n * 10 ^ length t + int (decimal t) in
      if v \<le> int64_max then (v, i + length t) else (-1, 0))"
proof (induction t arbitrary: i n)
  case Nil
  then show ?case by simp
next
  case (Cons c t)
  let ?n = "10 * n + int (dec_digit c)"
  have v: "n * 10 ^ length (c # t) + int (decimal (c # t)) =
      ?n * 10 ^ length t + int (decimal t)"
    by (simp add: decimal_Cons algebra_simps)
  have "?n * 1 \<le> ?n * 10 ^ length t"
    using Cons.prems(2) by (intro mult_left_mono) auto
  then have le: "?n \<le> ?n * 10 ^ length t + int (decimal t)"
    by simp
  show ?case
  proof (cases "?n \<le> int64_max")
    case True
    have "parse_uint_loop (bytes t) (Suc i) ?n =
        (let v = ?n * 10 ^ length t + int (decimal t) in
         if v \<le> int64_max then (v, Suc i + length t) else (-1, 0))"
      using Cons.prems True by (intro Cons.IH) auto
    moreover have "parse_uint_loop (bytes (c # t)) i n = parse_uint_loop (bytes t) (Suc i) ?n"
      using Cons.prems True by (simp add: parse_uint_loop_step del: parse_uint_loop.simps)
    ultimately show ?thesis
      unfolding v by (simp add: Let_def)
  next
    case False
    then have "parse_uint_loop (bytes (c # t)) i n = (-1, 0)"
      using Cons.prems by (simp add: parse_uint_loop_step del: parse_uint_loop.simps)
    then show ?thesis
      using False le unfolding v by (simp add: Let_def)
  qed
qed

lemma parse_uint_loop_all:
  "snd (parse_uint_loop bs i n) = i + length bs \<Longrightarrow> \<forall>b\<in>set bs. is_digit_byte b"
proof (induction bs i n rule: parse_uint_loop.induct)
  case (1 i n)
  then show ?case by simp
next
  case (2 b bs i n)
  then show ?case
    by (auto simp: Let_def split: if_splits)
qed

lemma bytes_digits_iff: "(\<forall>b\<in>set (bytes s). is_digit_byte b) \<longleftrightarrow> (\<forall>c\<in>set s. is_dec c)"
  by (auto simp: is_digit_byte_iff)

lemma parse_uint_value:
  "parse_uint (bytes s) =
     (if s \<noteq> [] \<and> list_all is_dec s \<and> int (decimal s) \<le> int64_max then int (decimal s) else -1)"
proof (cases "s = []")
  case True
  then show ?thesis by (simp add: parse_uint_def parse_uint_digits_def)
next
  case nonempty: False
  show ?thesis
  proof (cases "list_all is_dec s")
    case True
    then show ?thesis
      using nonempty parse_uint_loop_digits [of s 0 0]
      by (auto simp: parse_uint_def parse_uint_digits_def Let_def list_all_iff int64_max_def)
  next
    case False
    then have "snd (parse_uint_loop (bytes s) 0 0) \<noteq> length s"
      using parse_uint_loop_all [of "bytes s" 0 0] bytes_digits_iff [of s]
      by (auto simp: list_all_iff)
    then show ?thesis
      using nonempty False
      by (auto simp: parse_uint_def parse_uint_digits_def split: prod.splits)
  qed
qed

text \<open>
  C28: \<open>parse_uint\<close> returns the value of a non-empty decimal numeral that fits into \<open>int64_t\<close> and
  -1 on every other byte string; none of its intermediate steps leaves the range.
\<close>

theorem parse_uint_exact:
  "parse_uint (bytes s) =
     (if s \<noteq> [] \<and> list_all is_dec s \<and> int (decimal s) \<le> int64_max then int (decimal s) else -1)"
  by (rule parse_uint_value)

section \<open>session_utils: the ALPN identifier\<close>

definition NGHTTP2_H2 :: string where "NGHTTP2_H2 = ''h2''"

definition NGHTTP2_H2_16 :: string where "NGHTTP2_H2_16 = ''h2-16''"

definition NGHTTP2_H2_14 :: string where "NGHTTP2_H2_14 = ''h2-14''"

definition check_h2_is_selected :: "string \<Rightarrow> bool" where
  "check_h2_is_selected proto \<longleftrightarrow>
     NGHTTP2_H2 = proto \<or> NGHTTP2_H2_16 = proto \<or> NGHTTP2_H2_14 = proto"

end
