(* ===== verification/Url_Parser.thy ===== *)
theory Url_Parser
  imports Text_Utils
begin

text \<open>
  \<open>third-party/url-parser/url_parser.cpp\<close>, the URL parser the session uses to take a request's
  URL apart, in the non-strict build (\<open>HTTP_PARSER_STRICT\<close> is not defined by the library).

  The two transition functions \<open>parse_url_char\<close> and \<open>http_parse_host_char\<close> are step functions on
  the enumerations of the source (the enumerators of \<open>enum state\<close> that belong to the request and
  response parser are left out: \<open>parse_url_char\<close> is never in one of them). The loops around them
  are recursions over the unread characters with the position \<open>i = p - buf\<close>; the offsets and
  lengths they store are 16-bit words, so a position beyond 65535 wraps as in the source.
\<close>

section \<open>Character classes\<close>

definition LOWER :: "char \<Rightarrow> byte" where
  "LOWER c = byte_of_char c OR 0x20"

definition IS_ALPHA :: "char \<Rightarrow> bool" where
  "IS_ALPHA c \<longleftrightarrow> LOWER c \<ge> byte_of_char CHR ''a'' \<and> LOWER c \<le> byte_of_char CHR ''z''"

definition IS_NUM :: "char \<Rightarrow> bool" where
  "IS_NUM c \<longleftrightarrow> sbetween CHR ''0'' CHR ''9'' c"

definition IS_ALPHANUM :: "char \<Rightarrow> bool" where
  "IS_ALPHANUM c \<longleftrightarrow> IS_ALPHA c \<or> IS_NUM c"

definition IS_HEX :: "char \<Rightarrow> bool" where
  "IS_HEX c \<longleftrightarrow>
     IS_NUM c \<or> (LOWER c \<ge> byte_of_char CHR ''a'' \<and> LOWER c \<le> byte_of_char CHR ''f'')"

definition IS_MARK :: "char \<Rightarrow> bool" where
  "IS_MARK c \<longleftrightarrow>
     c = CHR ''-'' \<or> c = CHR ''_'' \<or> c = CHR ''.'' \<or> c = CHR ''!'' \<or> c = CHR ''~'' \<or>
     c = CHR ''*'' \<or> c = CHR 0x27 \<or> c = CHR ''('' \<or> c = CHR '')''"

definition IS_USERINFO_CHAR :: "char \<Rightarrow> bool" where
  "IS_USERINFO_CHAR c \<longleftrightarrow>
     IS_ALPHANUM c \<or> IS_MARK c \<or> c = CHR ''%'' \<or> c = CHR '';'' \<or> c = CHR '':'' \<or>
     c = CHR ''&'' \<or> c = CHR ''='' \<or> c = CHR ''+'' \<or> c = CHR ''$'' \<or> c = CHR '',''"

definition normal_url_char :: "byte list" where
  "normal_url_char =
     [0,
      2 OR 16,
      0,
      0,
      2 OR 4 OR 16 OR 32 OR 64 OR 128,
      1 OR 2 OR 4 OR 8 OR 16 OR 32 OR 64 OR 128,
      1 OR 2 OR 4 OR 8 OR 16 OR 32 OR 64 OR 128,
      1 OR 2 OR 4 OR 8 OR 16 OR 32 OR 64,
      1 OR 2 OR 4 OR 8 OR 16 OR 32 OR 64 OR 128,
      1 OR 2 OR 4 OR 8 OR 16 OR 32 OR 64 OR 128,
      1 OR 2 OR 4 OR 8 OR 16 OR 32 OR 64 OR 128,
      1 OR 2 OR 4 OR 8 OR 16 OR 32 OR 64 OR 128,
      1 OR 2 OR 4 OR 8 OR 16 OR 32 OR 64 OR 128,
      1 OR 2 OR 4 OR 8 OR 16 OR 32 OR 64 OR 128,
      1 OR 2 OR 4 OR 8 OR 16 OR 32 OR 64 OR 128,
      1 OR 2 OR 4 OR 8 OR 16 OR 32 OR 64] @ replicate 16 0"

definition BIT_AT :: "byte list \<Rightarrow> nat \<Rightarrow> bool" where
  "BIT_AT a i \<longleftrightarrow> (a ! (i div 8)) AND push_bit (i mod 8) 1 \<noteq> 0"

definition IS_URL_CHAR :: "char \<Rightarrow> bool" where
  "IS_URL_CHAR c \<longleftrightarrow>
     BIT_AT normal_url_char (of_char c) \<or> byte_of_char c AND 0x80 \<noteq> 0"

definition IS_HOST_CHAR :: "char \<Rightarrow> bool" where
  "IS_HOST_CHAR c \<longleftrightarrow> IS_ALPHANUM c \<or> c = CHR ''.'' \<or> c = CHR ''-'' \<or> c = CHR ''_''"

section \<open>The URL automaton\<close>

datatype url_state =
    s_dead
  | s_req_spaces_before_url
  | s_req_schema
  | s_req_schema_slash
  | s_req_schema_slash_slash
  | s_req_server_start
  | s_req_server
  | s_req_server_with_at
  | s_req_path
  | s_req_query_string_start
  | s_req_query_string
  | s_req_fragment_start
  | s_req_fragment

definition parse_url_server :: "char \<Rightarrow> url_state" where
  "parse_url_server ch =
     (if ch = CHR ''/'' then s_req_path
      else if ch = CHR ''?'' then s_req_query_string_start
      else if ch = CHR ''@'' then s_req_server_with_at
      else if IS_USERINFO_CHAR ch \<or> ch = CHR ''['' \<or> ch = CHR '']'' then s_req_server
      else s_dead)"

definition parse_url_char :: "url_state \<Rightarrow> char \<Rightarrow> url_state" where
  "parse_url_char s ch =
     (if ch = CHR '' '' \<or> ch = CHR 0x0D \<or> ch = CHR 0x0A then s_dead
      else case s of
        s_req_spaces_before_url \<Rightarrow>
          (if ch = CHR ''/'' \<or> ch = CHR ''*'' then s_req_path
           else if IS_ALPHA ch then s_req_schema
           else s_dead)
      | s_req_schema \<Rightarrow>
          (if IS_ALPHA ch then s
           else if ch = CHR '':'' then s_req_schema_slash
           else s_dead)
      | s_req_schema_slash \<Rightarrow> (if ch = CHR ''/'' then s_req_schema_slash_slash else s_dead)
      | s_req_schema_slash_slash \<Rightarrow> (if ch = CHR ''/'' then s_req_server_start else s_dead)
      | s_req_server_with_at \<Rightarrow> (if ch = CHR ''@'' then s_dead else parse_url_server ch)
      | s_req_server_start \<Rightarrow> parse_url_server ch
      | s_req_server \<Rightarrow> parse_url_server ch
      | s_req_path \<Rightarrow>
          (if IS_URL_CHAR ch then s
           else if ch = CHR ''?'' then s_req_query_string_start
           else if ch = CHR ''#'' then s_req_fragment_start
           else s_dead)
      | s_req_query_string_start \<Rightarrow>
          (if IS_URL_CHAR ch then s_req_query_string
           else if ch = CHR ''?'' then s_req_query_string
           else if ch = CHR ''#'' then s_req_fragment_start
           else s_dead)
      | s_req_query_string \<Rightarrow>
          (if IS_URL_CHAR ch then s_req_query_string
           else if ch = CHR ''?'' then s_req_query_string
           else if ch = CHR ''#'' then s_req_fragment_start
           else s_dead)
      | s_req_fragment_start \<Rightarrow>
          (if IS_URL_CHAR ch then s_req_fragment
           else if ch = CHR ''?'' then s_req_fragment
           else if ch = CHR ''#'' then s
           else s_dead)
      | s_req_fragment \<Rightarrow>
          (if IS_URL_CHAR ch then s
           else if ch = CHR ''?'' \<or> ch = CHR ''#'' then s
           else s_dead)
      | s_dead \<Rightarrow> s_dead)"

section \<open>The host automaton\<close>

datatype http_host_state =
    s_http_host_dead
  | s_http_userinfo_start
  | s_http_userinfo
  | s_http_host_start
  | s_http_host_v6_start
  | s_http_host
  | s_http_host_v6
  | s_http_host_v6_end
  | s_http_host_v6_zone_start
  | s_http_host_v6_zone
  | s_http_host_port_start
  | s_http_host_port

definition host_v6_tail :: "http_host_state \<Rightarrow> char \<Rightarrow> http_host_state" where
  "host_v6_tail s ch =
     (if IS_HEX ch \<or> ch = CHR '':'' \<or> ch = CHR ''.'' then s_http_host_v6
      else if s = s_http_host_v6 \<and> ch = CHR ''%'' then s_http_host_v6_zone_start
      else s_http_host_dead)"

definition host_zone_tail :: "char \<Rightarrow> http_host_state" where
  "host_zone_tail ch =
     (if IS_ALPHANUM ch \<or> ch = CHR ''%'' \<or> ch = CHR ''.'' \<or> ch = CHR ''-'' \<or> ch = CHR ''_'' \<or>
         ch = CHR ''~''
      then s_http_host_v6_zone else s_http_host_dead)"

definition http_parse_host_char :: "http_host_state \<Rightarrow> char \<Rightarrow> http_host_state" where
  "http_parse_host_char s ch =
     (case s of
        s_http_userinfo \<Rightarrow>
          (if ch = CHR ''@'' then s_http_host_start
           else if IS_USERINFO_CHAR ch then s_http_userinfo
           else s_http_host_dead)
      | s_http_userinfo_start \<Rightarrow>
          (if ch = CHR ''@'' then s_http_host_start
           else if IS_USERINFO_CHAR ch then s_http_userinfo
           else s_http_host_dead)
      | s_http_host_start \<Rightarrow>
          (if ch = CHR ''['' then s_http_host_v6_start
           else if IS_HOST_CHAR ch then s_http_host
           else s_http_host_dead)
      | s_http_host \<Rightarrow>
          (if IS_HOST_CHAR ch then s_http_host
           else if ch = CHR '':'' then s_http_host_port_start
           else s_http_host_dead)
      | s_http_host_v6_end \<Rightarrow>
          (if ch = CHR '':'' then s_http_host_port_start else s_http_host_dead)
      | s_http_host_v6 \<Rightarrow>
          (if ch = CHR '']'' then s_http_host_v6_end else host_v6_tail s ch)
      | s_http_host_v6_start \<Rightarrow> host_v6_tail s ch
      | s_http_host_v6_zone \<Rightarrow>
          (if ch = CHR '']'' then s_http_host_v6_end else host_zone_tail ch)
      | s_http_host_v6_zone_start \<Rightarrow> host_zone_tail ch
      | s_http_host_port \<Rightarrow> (if IS_NUM ch then s_http_host_port else s_http_host_dead)
      | s_http_host_port_start \<Rightarrow> (if IS_NUM ch then s_http_host_port else s_http_host_dead)
      | s_http_host_dead \<Rightarrow> s_http_host_dead)"

section \<open>The parsed URL\<close>

datatype url_field =
    UF_SCHEMA | UF_HOST | UF_PORT | UF_PATH | UF_QUERY | UF_FRAGMENT | UF_USERINFO

fun uf_index :: "url_field \<Rightarrow> nat" where
  "uf_index UF_SCHEMA = 0"
| "uf_index UF_HOST = 1"
| "uf_index UF_PORT = 2"
| "uf_index UF_PATH = 3"
| "uf_index UF_QUERY = 4"
| "uf_index UF_FRAGMENT = 5"
| "uf_index UF_USERINFO = 6"

record field_pos =
  off :: "16 word"
  len :: "16 word"

record http_parser_url =
  field_set :: "16 word"
  port :: "16 word"
  field_data :: "url_field \<Rightarrow> field_pos"

definition has_field :: "http_parser_url \<Rightarrow> url_field \<Rightarrow> bool" where
  "has_field u f \<longleftrightarrow> field_set u AND push_bit (uf_index f) 1 \<noteq> 0"

definition mark_field :: "url_field \<Rightarrow> http_parser_url \<Rightarrow> http_parser_url" where
  "mark_field f u = u\<lparr>field_set := field_set u OR push_bit (uf_index f) 1\<rparr>"

definition put_field :: "url_field \<Rightarrow> 16 word \<Rightarrow> 16 word \<Rightarrow> http_parser_url \<Rightarrow> http_parser_url" where
  "put_field f o' l u = u\<lparr>field_data := (field_data u)(f := \<lparr>off = o', len = l\<rparr>)\<rparr>"

definition put_off :: "url_field \<Rightarrow> 16 word \<Rightarrow> http_parser_url \<Rightarrow> http_parser_url" where
  "put_off f o' u = put_field f o' (len (field_data u f)) u"

definition bump_len :: "url_field \<Rightarrow> http_parser_url \<Rightarrow> http_parser_url" where
  "bump_len f u = put_field f (off (field_data u f)) (len (field_data u f) + 1) u"

section \<open>http_parse_host\<close>

definition host_account ::
  "http_host_state \<Rightarrow> http_host_state \<Rightarrow> nat \<Rightarrow> http_parser_url \<Rightarrow> http_parser_url" where
  "host_account s new_s i u =
     (case new_s of
        s_http_host \<Rightarrow>
          bump_len UF_HOST (if s \<noteq> s_http_host then put_off UF_HOST (of_nat i) u else u)
      | s_http_host_v6 \<Rightarrow>
          bump_len UF_HOST (if s \<noteq> s_http_host_v6 then put_off UF_HOST (of_nat i) u else u)
      | s_http_host_v6_zone_start \<Rightarrow> bump_len UF_HOST u
      | s_http_host_v6_zone \<Rightarrow> bump_len UF_HOST u
      | s_http_host_port \<Rightarrow>
          bump_len UF_PORT
            (if s \<noteq> s_http_host_port then mark_field UF_PORT (put_field UF_PORT (of_nat i) 0 u) else u)
      | s_http_userinfo \<Rightarrow>
          bump_len UF_USERINFO
            (if s \<noteq> s_http_userinfo
             then mark_field UF_USERINFO (put_field UF_USERINFO (of_nat i) 0 u) else u)
      | _ \<Rightarrow> u)"

fun host_loop ::
  "http_host_state \<Rightarrow> nat \<Rightarrow> string \<Rightarrow> http_parser_url \<Rightarrow> http_parser_url \<times> http_host_state" where
  "host_loop s i [] u = (u, s)"
| "host_loop s i (c # cs) u =
     (let new_s = http_parse_host_char s c in
      if new_s = s_http_host_dead then (u, s_http_host_dead)
      else host_loop new_s (Suc i) cs (host_account s new_s i u))"

definition host_end_ok :: "http_host_state \<Rightarrow> bool" where
  "host_end_ok s \<longleftrightarrow>
     s \<notin> {s_http_host_start, s_http_host_v6_start, s_http_host_v6, s_http_host_v6_zone_start,
          s_http_host_v6_zone, s_http_host_port_start, s_http_userinfo, s_http_userinfo_start}"

definition http_parse_host :: "string \<Rightarrow> http_parser_url \<Rightarrow> bool \<Rightarrow> http_parser_url \<times> int" where
  "http_parse_host buf u found_at =
     (let o' = unat (off (field_data u UF_HOST)); l = unat (len (field_data u UF_HOST));
          u = put_field UF_HOST (off (field_data u UF_HOST)) 0 u;
          s = (if found_at then s_http_userinfo_start else s_http_host_start)
      in case host_loop s o' (take l (drop o' buf)) u of
           (u, s) \<Rightarrow>
             if s = s_http_host_dead then (u, 1)
             else if host_end_ok s then (u, 0) else (u, 1))"

section \<open>http_parser_parse_url\<close>

datatype url_step = Reject | Skip | Collect url_field | Unexpected

fun url_action :: "url_state \<Rightarrow> url_step" where
  "url_action s_dead = Reject"
| "url_action s_req_schema_slash = Skip"
| "url_action s_req_schema_slash_slash = Skip"
| "url_action s_req_server_start = Skip"
| "url_action s_req_query_string_start = Skip"
| "url_action s_req_fragment_start = Skip"
| "url_action s_req_schema = Collect UF_SCHEMA"
| "url_action s_req_server_with_at = Collect UF_HOST"
| "url_action s_req_server = Collect UF_HOST"
| "url_action s_req_path = Collect UF_PATH"
| "url_action s_req_query_string = Collect UF_QUERY"
| "url_action s_req_fragment = Collect UF_FRAGMENT"
| "url_action s_req_spaces_before_url = Unexpected"

text \<open>
  The scanning loop. \<open>old_uf = None\<close> is the initial \<open>UF_MAX\<close>; the result carries the final state
  (\<open>s_dead\<close> where the loop returned 1) and whether an \<open>@\<close> was seen. The \<open>default\<close> branch of the
  source asserts; the lemma \<open>parse_url_char_expected\<close> shows it is never taken.
\<close>

fun url_loop ::
  "url_state \<Rightarrow> url_field option \<Rightarrow> bool \<Rightarrow> nat \<Rightarrow> string \<Rightarrow> http_parser_url \<Rightarrow>
     http_parser_url \<times> bool \<times> url_state" where
  "url_loop s old_uf found_at i [] u = (u, found_at, s)"
| "url_loop s old_uf found_at i (c # cs) u =
     (let s = parse_url_char s c; found_at = (found_at \<or> s = s_req_server_with_at) in
      case url_action s of
        Reject \<Rightarrow> (u, found_at, s_dead)
      | Unexpected \<Rightarrow> (u, found_at, s_dead)
      | Skip \<Rightarrow> url_loop s old_uf found_at (Suc i) cs u
      | Collect uf \<Rightarrow>
          if old_uf = Some uf then url_loop s old_uf found_at (Suc i) cs (bump_len uf u)
          else url_loop s (Some uf) found_at (Suc i) cs (mark_field uf (put_field uf (of_nat i) 1 u)))"

text \<open>
  \<open>strtoul(p, NULL, 10)\<close>: leading white space and a sign are skipped, a value that does not fit
  is \<open>ULONG_MAX\<close>, and a minus sign negates in the unsigned type. (The parser only calls it on a
  digit, except on inputs so long that the 16-bit offset has wrapped.)
\<close>

definition isspace :: "char \<Rightarrow> bool" where
  "isspace c \<longleftrightarrow> c = CHR '' '' \<or> (CHR 0x09 \<le> c \<and> c \<le> CHR 0x0D)"

definition strtoul_digits :: "string \<Rightarrow> nat" where
  "strtoul_digits s = decimal (takeWhile is_dec s)"

definition strtoul10 :: "string \<Rightarrow> nat" where
  "strtoul10 s =
     (let s = dropWhile isspace s; neg = (s \<noteq> [] \<and> hd s = CHR ''-'');
          v = strtoul_digits (if s \<noteq> [] \<and> hd s \<in> {CHR ''-'', CHR ''+''} then tl s else s)
      in if v > 2 ^ 64 - 1 then 2 ^ 64 - 1
         else if neg then (2 ^ 64 - v) mod 2 ^ 64 else v)"

lemma strtoul10_digit:
  assumes "is_dec (hd s)" and "s \<noteq> []"
  shows "strtoul10 s = min (strtoul_digits s) (2 ^ 64 - 1)"
proof -
  have "\<not> isspace (hd s)" and "hd s \<noteq> CHR ''-''" and "hd s \<noteq> CHR ''+''"
    using assms(1) by (auto simp: isspace_def is_dec_def less_eq_char_def)
  moreover from this have "dropWhile isspace s = s"
    using assms(2) by (cases s) auto
  ultimately show ?thesis
    by (simp add: strtoul10_def Let_def)
qed

definition parse_url_port :: "string \<Rightarrow> http_parser_url \<Rightarrow> http_parser_url \<times> int" where
  "parse_url_port buf u =
     (if has_field u UF_PORT then
        (let v = strtoul10 (drop (unat (off (field_data u UF_PORT))) buf) in
         if v > 0xffff then (u, 1) else (u\<lparr>port := of_nat v\<rparr>, 0))
      else (u, 0))"

definition parse_url_finish ::
  "string \<Rightarrow> bool \<Rightarrow> http_parser_url \<Rightarrow> http_parser_url \<times> int" where
  "parse_url_finish buf is_connect u =
     (if is_connect \<and> field_set u \<noteq> (push_bit (uf_index UF_HOST) 1 OR push_bit (uf_index UF_PORT) 1)
      then (u, 1)
      else parse_url_port buf u)"

definition http_parser_parse_url ::
  "string \<Rightarrow> bool \<Rightarrow> http_parser_url \<Rightarrow> http_parser_url \<times> int" where
  "http_parser_parse_url buf is_connect u =
     (let u = u\<lparr>port := 0, field_set := 0\<rparr>;
          s = (if is_connect then s_req_server_start else s_req_spaces_before_url)
      in case url_loop s None False 0 buf u of
           (u, found_at, s) \<Rightarrow>
             if s = s_dead then (u, 1)
             else if has_field u UF_SCHEMA \<and> \<not> has_field u UF_HOST then (u, 1)
             else if has_field u UF_HOST then
               (case http_parse_host buf u found_at of
                  (u, rc) \<Rightarrow> if rc \<noteq> 0 then (u, 1) else parse_url_finish buf is_connect u)
             else parse_url_finish buf is_connect u)"

section \<open>What the character classes accept\<close>

lemma IS_NUM_iff [char_simps]: "IS_NUM c \<longleftrightarrow> is_dec c"
  by (simp add: IS_NUM_def is_dec_def sbetween_ascii)

lemma IS_ALPHA_iff [char_simps]:
  "IS_ALPHA c \<longleftrightarrow> (CHR ''A'' \<le> c \<and> c \<le> CHR ''Z'') \<or> (CHR ''a'' \<le> c \<and> c \<le> CHR ''z'')"
proof -
  have "\<forall>c. IS_ALPHA c \<longleftrightarrow> (CHR ''A'' \<le> c \<and> c \<le> CHR ''Z'') \<or> (CHR ''a'' \<le> c \<and> c \<le> CHR ''z'')"
    by code_simp
  then show ?thesis by blast
qed

lemma IS_URL_CHAR_iff [char_simps]:
  "IS_URL_CHAR c \<longleftrightarrow>
     c \<noteq> CHR ''#'' \<and> c \<noteq> CHR ''?'' \<and> c \<noteq> CHR 0x7F \<and>
     (c = CHR 0x09 \<or> c = CHR 0x0C \<or> CHR '' '' < c)"
proof -
  have "\<forall>c. IS_URL_CHAR c \<longleftrightarrow>
     c \<noteq> CHR ''#'' \<and> c \<noteq> CHR ''?'' \<and> c \<noteq> CHR 0x7F \<and>
     (c = CHR 0x09 \<or> c = CHR 0x0C \<or> CHR '' '' < c)"
    by code_simp
  then show ?thesis by blast
qed

text \<open>
  The classes the automata branch on, related once and for all: everything that may stand in a
  host name or a port is also accepted in the server part of the first automaton, and none of the
  delimiters is.
\<close>

definition delimiter :: "char \<Rightarrow> bool" where
  "delimiter c \<longleftrightarrow> c \<in> set '' /?#@[]'' \<or> c = CHR 0x0D \<or> c = CHR 0x0A"

lemma class_facts:
  "IS_HOST_CHAR c \<Longrightarrow> IS_USERINFO_CHAR c"
  "IS_HOST_CHAR c \<Longrightarrow> c \<noteq> CHR '':''"
  "is_dec c \<Longrightarrow> IS_HOST_CHAR c"
  "IS_USERINFO_CHAR c \<Longrightarrow> \<not> delimiter c"
  "IS_ALPHA c \<Longrightarrow> IS_HOST_CHAR c"
  "IS_URL_CHAR c \<Longrightarrow> c \<noteq> CHR '' '' \<and> c \<noteq> CHR 0x0D \<and> c \<noteq> CHR 0x0A"
  by (auto simp: delimiter_def IS_HOST_CHAR_def IS_USERINFO_CHAR_def IS_ALPHANUM_def IS_MARK_def
      char_simps is_dec_def)

section \<open>The field record\<close>

lemma has_field_bit: "has_field u f \<longleftrightarrow> bit (field_set u) (uf_index f)"
  by (simp add: has_field_def bit_iff_and_push_bit_not_eq_0)

lemma uf_index_less [simp]: "uf_index f < 7"
  by (cases f) simp_all

lemma uf_index_inj [simp]: "uf_index f = uf_index g \<longleftrightarrow> f = g"
  by (cases f; cases g) simp_all

lemma has_field_mark [simp]: "has_field (mark_field f u) g \<longleftrightarrow> f = g \<or> has_field u g"
  using uf_index_less [of f] uf_index_less [of g]
  by (auto simp: has_field_bit mark_field_def bit_or_iff bit_exp_iff simp del: uf_index_less)

lemma has_field_put [simp]:
  "has_field (put_field f o' l u) g \<longleftrightarrow> has_field u g"
  "has_field (put_off f o' u) g \<longleftrightarrow> has_field u g"
  "has_field (bump_len f u) g \<longleftrightarrow> has_field u g"
  "has_field (port_update h u) g \<longleftrightarrow> has_field u g"
  by (simp_all add: has_field_def put_field_def put_off_def bump_len_def)

lemma field_data_put [simp]:
  "field_data (put_field f o' l u) = (field_data u)(f := \<lparr>off = o', len = l\<rparr>)"
  "field_data (put_off f o' u) = (field_data u)(f := \<lparr>off = o', len = len (field_data u f)\<rparr>)"
  "field_data (bump_len f u) =
     (field_data u)(f := \<lparr>off = off (field_data u f), len = len (field_data u f) + 1\<rparr>)"
  "field_data (mark_field f u) = field_data u"
  by (simp_all add: put_field_def put_off_def bump_len_def mark_field_def)

lemma port_frame [frame_simps, simp]:
  "port (put_field f o' l u) = port u" "port (put_off f o' u) = port u"
  "port (bump_len f u) = port u" "port (mark_field f u) = port u"
  by (simp_all add: put_field_def put_off_def bump_len_def mark_field_def)

section \<open>Automata over a list of characters\<close>

text \<open>
  Both automata have a dead state they never leave. What follows from that alone, for any step
  function, is proved once.
\<close>

locale char_machine =
  fixes step :: "'s \<Rightarrow> char \<Rightarrow> 's" and dead :: 's
  assumes dead_absorbing: "step dead c = dead"
begin

lemma foldl_dead: "foldl step dead cs = dead"
  by (induction cs) (simp_all add: dead_absorbing)

lemma live_prefix: "foldl step s (xs @ ys) \<noteq> dead \<Longrightarrow> foldl step s xs \<noteq> dead"
  by (metis foldl_append foldl_dead)

lemma rejected_char:
  assumes "\<And>s. step s c = dead" and "c \<in> set cs"
  shows "foldl step s cs = dead"
proof -
  obtain xs ys where "cs = xs @ c # ys"
    using split_list [OF assms(2)] by blast
  then show ?thesis
    by (simp add: assms(1) foldl_dead)
qed

lemma run_stays:
  "(\<And>c. c \<in> set cs \<Longrightarrow> step s c = s) \<Longrightarrow> foldl step s cs = s"
  by (induction cs) auto

end

interpretation url: char_machine parse_url_char s_dead
  by unfold_locales (simp add: parse_url_char_def)

interpretation host: char_machine http_parse_host_char s_http_host_dead
  by unfold_locales (simp add: http_parse_host_char_def)

lemma parse_url_char_expected: "url_action (parse_url_char s c) \<noteq> Unexpected"
  by (cases s) (simp_all add: parse_url_char_def parse_url_server_def)

lemma url_loop_state:
  "snd (snd (url_loop s old fa i cs u)) = foldl parse_url_char s cs"
proof (induction cs arbitrary: s old fa i u)
  case Nil
  then show ?case by simp
next
  case (Cons c cs)
  then show ?case
    using parse_url_char_expected [of s c]
    by (cases "parse_url_char s c") (simp_all add: Let_def url.foldl_dead)
qed

lemma host_loop_state:
  "snd (host_loop s i cs u) = foldl http_parse_host_char s cs"
  by (induction cs arbitrary: s i u) (simp_all add: Let_def host.foldl_dead)

text \<open>
  A URL that contains a space, a carriage return or a line feed is rejected (the return value
  is 1) wherever the character stands and whatever the parsed record held before.
\<close>

theorem url_with_blank_rejected:
  assumes "c \<in> set buf" and "c \<in> {CHR '' '', CHR 0x0D, CHR 0x0A}"
  shows "snd (http_parser_parse_url buf is_connect u) = 1"
proof -
  have "parse_url_char s c = s_dead" for s
    using assms(2) by (auto simp: parse_url_char_def)
  then have "foldl parse_url_char s buf = s_dead" for s
    using assms(1) by (rule url.rejected_char)
  then have "snd (snd (url_loop s old fa i buf u')) = s_dead" for s old fa i u'
    by (simp add: url_loop_state)
  then show ?thesis
    by (auto simp: http_parser_parse_url_def Let_def split: prod.splits)
       (metis snd_conv)+
qed

section \<open>Scanning a component\<close>

text \<open>The moves of the URL automaton on the characters a well-formed URL is made of.\<close>

lemma userinfo_neq:
  assumes "IS_USERINFO_CHAR c"
  shows "c \<noteq> CHR '' ''" "c \<noteq> CHR 0x0D" "c \<noteq> CHR 0x0A" "c \<noteq> CHR ''/''" "c \<noteq> CHR ''?''" "c \<noteq> CHR ''@''"
  using class_facts(4) [OF assms] by (auto simp: delimiter_def)

lemma parse_url_server_moves:
  "IS_USERINFO_CHAR c \<Longrightarrow> parse_url_server c = s_req_server"
  "parse_url_server CHR ''/'' = s_req_path"
  "parse_url_server CHR ''?'' = s_req_query_string_start"
  "parse_url_server CHR ''@'' = s_req_server_with_at"
  by (simp_all add: parse_url_server_def userinfo_neq)

lemma server_moves:
  assumes "s \<in> {s_req_server_start, s_req_server, s_req_server_with_at}"
  shows "IS_USERINFO_CHAR c \<Longrightarrow> parse_url_char s c = s_req_server"
    and "parse_url_char s CHR ''/'' = s_req_path"
    and "parse_url_char s CHR ''?'' = s_req_query_string_start"
    and "s \<noteq> s_req_server_with_at \<Longrightarrow> parse_url_char s CHR ''@'' = s_req_server_with_at"
  using assms
  by (auto simp: parse_url_char_def parse_url_server_moves userinfo_neq)

lemma schema_moves:
  "IS_ALPHA c \<Longrightarrow> parse_url_char s_req_spaces_before_url c = s_req_schema"
  "IS_ALPHA c \<Longrightarrow> parse_url_char s_req_schema c = s_req_schema"
  "parse_url_char s_req_schema CHR '':'' = s_req_schema_slash"
  "parse_url_char s_req_schema_slash CHR ''/'' = s_req_schema_slash_slash"
  "parse_url_char s_req_schema_slash_slash CHR ''/'' = s_req_server_start"
  by (auto simp: parse_url_char_def char_simps)

lemma not_url_char: "\<not> IS_URL_CHAR CHR ''?''" "\<not> IS_URL_CHAR CHR ''#''"
  by (simp_all add: IS_URL_CHAR_iff)

lemma tail_moves:
  "IS_URL_CHAR c \<Longrightarrow> parse_url_char s_req_path c = s_req_path"
  "parse_url_char s_req_path CHR ''?'' = s_req_query_string_start"
  "parse_url_char s_req_path CHR ''#'' = s_req_fragment_start"
  "IS_URL_CHAR c \<or> c = CHR ''?'' \<Longrightarrow>
     parse_url_char s_req_query_string_start c = s_req_query_string"
  "IS_URL_CHAR c \<or> c = CHR ''?'' \<Longrightarrow> parse_url_char s_req_query_string c = s_req_query_string"
  "parse_url_char s_req_query_string CHR ''#'' = s_req_fragment_start"
  "IS_URL_CHAR c \<or> c = CHR ''?'' \<Longrightarrow> parse_url_char s_req_fragment_start c = s_req_fragment"
  "IS_URL_CHAR c \<or> c = CHR ''?'' \<or> c = CHR ''#'' \<Longrightarrow>
     parse_url_char s_req_fragment c = s_req_fragment"
  using class_facts(6) [of c]
  by (simp_all add: parse_url_char_def not_url_char) (auto simp: not_url_char)

definition set_field :: "url_field \<Rightarrow> nat \<Rightarrow> nat \<Rightarrow> http_parser_url \<Rightarrow> http_parser_url" where
  "set_field f i n u = mark_field f (put_field f (of_nat i) (of_nat n) u)"

definition opt_field ::
  "url_field \<Rightarrow> nat \<Rightarrow> string option \<Rightarrow> http_parser_url \<Rightarrow> http_parser_url" where
  "opt_field f i x u = (case x of None \<Rightarrow> u | Some y \<Rightarrow> set_field f i (length y) u)"

lemma port_set_field [frame_simps, simp]:
  "port (set_field f i n u) = port u" "port (opt_field f i x u) = port u"
  by (simp_all add: set_field_def opt_field_def split: option.splits)

lemma bump_set_field: "bump_len f (set_field f i n u) = set_field f i (Suc n) u"
  by (simp add: set_field_def bump_len_def mark_field_def put_field_def add.commute)

text \<open>A run of characters that keep the state extends the field the loop is collecting.\<close>

lemma url_loop_run:
  assumes "url_action s = Collect f" and "s \<noteq> s_req_server_with_at"
    and "\<And>c. c \<in> set cs \<Longrightarrow> parse_url_char s c = s"
  shows "url_loop s (Some f) fa i (cs @ rest) (set_field f j n u) =
    url_loop s (Some f) fa (i + length cs) rest (set_field f j (n + length cs) u)"
  using assms(3)
proof (induction cs arbitrary: i n)
  case Nil
  then show ?case by simp
next
  case (Cons c cs)
  then show ?case
    using assms(1,2) by (simp add: bump_set_field)
qed

lemma url_loop_field:
  assumes "parse_url_char s0 (hd cs) = s" and "cs \<noteq> []" and "old \<noteq> Some f"
    and "url_action s = Collect f" and "s \<noteq> s_req_server_with_at"
    and "\<And>c. c \<in> set (tl cs) \<Longrightarrow> parse_url_char s c = s"
  shows "url_loop s0 old fa i (cs @ rest) u =
    url_loop s (Some f) fa (i + length cs) rest (set_field f i (length cs) u)"
proof -
  obtain c ds where cs: "cs = c # ds"
    using assms(2) by (cases cs) auto
  have "url_loop s0 old fa i (cs @ rest) u =
      url_loop s (Some f) fa (Suc i) (ds @ rest) (set_field f i 1 u)"
    using assms by (simp add: cs set_field_def)
  also have "\<dots> = url_loop s (Some f) fa (Suc i + length ds) rest (set_field f i (1 + length ds) u)"
    using assms by (intro url_loop_run) (auto simp: cs)
  finally show ?thesis
    by (simp add: cs)
qed

lemma url_loop_scheme:
  assumes "sch \<noteq> []" and "list_all IS_ALPHA sch"
  shows "url_loop s_req_spaces_before_url None False 0 (sch @ ''://'' @ rest) u =
    url_loop s_req_server_start (Some UF_SCHEMA) False (length sch + 3) rest
      (set_field UF_SCHEMA 0 (length sch) u)"
proof -
  have "url_loop s_req_spaces_before_url None False 0 (sch @ ''://'' @ rest) u =
      url_loop s_req_schema (Some UF_SCHEMA) False (0 + length sch) (''://'' @ rest)
        (set_field UF_SCHEMA 0 (length sch) u)"
    using assms
    by (intro url_loop_field) (auto simp: schema_moves list_all_iff hd_in_set dest: list.set_sel(2))
  then show ?thesis
    by (simp add: schema_moves eval_nat_numeral)
qed

fun auth_text :: "string option \<Rightarrow> string" where
  "auth_text None = []"
| "auth_text (Some x) = x @ ''@''"

lemma url_loop_server:
  assumes "srv \<noteq> []" and "list_all IS_USERINFO_CHAR srv"
    and "\<And>x. ui = Some x \<Longrightarrow> x \<noteq> [] \<and> list_all IS_USERINFO_CHAR x"
  shows "url_loop s_req_server_start (Some UF_SCHEMA) False i (auth_text ui @ srv @ rest) u =
    url_loop s_req_server (Some UF_HOST) (ui \<noteq> None) (i + length (auth_text ui @ srv)) rest
      (set_field UF_HOST i (length (auth_text ui @ srv)) u)"
proof (cases ui)
  case None
  then show ?thesis
    using assms(1,2)
    by (simp add: url_loop_field [where s = s_req_server and f = UF_HOST] server_moves list_all_iff
        list.set_sel)
next
  case (Some x)
  obtain c ds where srv: "srv = c # ds"
    using assms(1) by (cases srv) auto
  have x: "x \<noteq> []" "list_all IS_USERINFO_CHAR x"
    using assms(3) [OF Some] by auto
  have "url_loop s_req_server_start (Some UF_SCHEMA) False i (x @ (''@'' @ srv @ rest)) u =
      url_loop s_req_server (Some UF_HOST) False (i + length x) (''@'' @ srv @ rest)
        (set_field UF_HOST i (length x) u)"
    using x by (intro url_loop_field)
      (auto simp: server_moves list_all_iff hd_in_set dest: list.set_sel(2))
  also have "\<dots> = url_loop s_req_server (Some UF_HOST) True (i + length x + 2) (ds @ rest)
        (set_field UF_HOST i (length x + 2) u)"
    using assms(2) by (simp add: srv server_moves bump_set_field eval_nat_numeral)
  also have "\<dots> = url_loop s_req_server (Some UF_HOST) True (i + length x + 2 + length ds) rest
        (set_field UF_HOST i (length x + 2 + length ds) u)"
    using assms(2) by (intro url_loop_run) (auto simp: srv server_moves list_all_iff)
  finally show ?thesis
    by (simp add: Some srv add.assoc)
qed

text \<open>Behind the server: an optional path, query and fragment.\<close>

fun mark_text :: "char \<Rightarrow> string option \<Rightarrow> string" where
  "mark_text c None = []"
| "mark_text c (Some x) = c # x"

definition nonempty :: "string \<Rightarrow> string option" where
  "nonempty x = (if x = [] then None else Some x)"

definition path_ok :: "string \<Rightarrow> bool" where
  "path_ok x \<longleftrightarrow> x = [] \<or> hd x = CHR ''/'' \<and> list_all IS_URL_CHAR x"

definition query_ok :: "string option \<Rightarrow> bool" where
  "query_ok x \<longleftrightarrow>
     (case x of None \<Rightarrow> True | Some q \<Rightarrow> q \<noteq> [] \<and> list_all (\<lambda>c. IS_URL_CHAR c \<or> c = CHR ''?'') q)"

definition fragment_ok :: "string option \<Rightarrow> bool" where
  "fragment_ok x \<longleftrightarrow>
     (case x of None \<Rightarrow> True
      | Some f \<Rightarrow> f \<noteq> [] \<and> hd f \<noteq> CHR ''#'' \<and>
          list_all (\<lambda>c. IS_URL_CHAR c \<or> c = CHR ''?'' \<or> c = CHR ''#'') f)"

lemma url_loop_path:
  assumes "path_ok x"
  shows "url_loop s_req_server (Some UF_HOST) fa i (x @ rest) u =
    url_loop (if x = [] then s_req_server else s_req_path)
      (Some (if x = [] then UF_HOST else UF_PATH)) fa (i + length x) rest
      (opt_field UF_PATH i (nonempty x) u)"
proof (cases "x = []")
  case True
  then show ?thesis by (simp add: opt_field_def nonempty_def)
next
  case False
  then have "hd x = CHR ''/''" and "list_all IS_URL_CHAR x"
    using assms by (auto simp: path_ok_def)
  then show ?thesis
    using False
    by (simp add: url_loop_field [where s = s_req_path and f = UF_PATH] server_moves tail_moves
        list_all_iff list.set_sel opt_field_def nonempty_def)
qed

lemma url_loop_query:
  assumes "query_ok x" and "s \<in> {s_req_server, s_req_path}" and "f \<in> {UF_HOST, UF_PATH}"
  shows "url_loop s (Some f) fa i (mark_text CHR ''?'' x @ rest) u =
    url_loop (if x = None then s else s_req_query_string)
      (Some (if x = None then f else UF_QUERY)) fa (i + length (mark_text CHR ''?'' x)) rest
      (opt_field UF_QUERY (Suc i) x u)"
proof (cases x)
  case None
  then show ?thesis by (simp add: opt_field_def)
next
  case (Some q)
  then have q: "q \<noteq> []" "\<forall>c\<in>set q. IS_URL_CHAR c \<or> c = CHR ''?''"
    using assms(1) by (auto simp: query_ok_def list_all_iff)
  have "url_loop s (Some f) fa i (CHR ''?'' # q @ rest) u =
      url_loop s_req_query_string_start (Some f) fa (Suc i) (q @ rest) u"
    using assms(2) by (auto simp: server_moves tail_moves)
  also have "\<dots> = url_loop s_req_query_string (Some UF_QUERY) fa (Suc i + length q) rest
      (set_field UF_QUERY (Suc i) (length q) u)"
    using q assms(3)
    by (intro url_loop_field) (auto simp: tail_moves dest: list.set_sel(2) hd_in_set)
  finally show ?thesis
    by (simp add: Some opt_field_def)
qed

lemma url_loop_fragment:
  assumes "fragment_ok x" and "x = None \<or> s \<in> {s_req_path, s_req_query_string}"
    and "f \<in> {UF_HOST, UF_PATH, UF_QUERY}"
  shows "url_loop s (Some f) fa i (mark_text CHR ''#'' x) u =
    (opt_field UF_FRAGMENT (Suc i) x u, fa, if x = None then s else s_req_fragment)"
proof (cases x)
  case None
  then show ?thesis by (simp add: opt_field_def)
next
  case (Some q)
  then have q: "q \<noteq> []" "hd q \<noteq> CHR ''#''"
      "\<forall>c\<in>set q. IS_URL_CHAR c \<or> c = CHR ''?'' \<or> c = CHR ''#''"
    using assms(1) by (auto simp: fragment_ok_def list_all_iff)
  have first: "IS_URL_CHAR (hd q) \<or> hd q = CHR ''?''"
    using q hd_in_set by blast
  have "url_loop s (Some f) fa i (CHR ''#'' # q @ []) u =
      url_loop s_req_fragment_start (Some f) fa (Suc i) (q @ []) u"
    using assms(2) Some by (auto simp: tail_moves)
  also have "\<dots> = url_loop s_req_fragment (Some UF_FRAGMENT) fa (Suc i + length q) []
      (set_field UF_FRAGMENT (Suc i) (length q) u)"
    using q first assms(3)
    by (intro url_loop_field) (auto simp: tail_moves dest: list.set_sel(2))
  finally show ?thesis
    by (simp add: Some opt_field_def)
qed

section \<open>Scanning the host\<close>

lemma host_moves:
  "s \<in> {s_http_userinfo_start, s_http_userinfo} \<Longrightarrow> IS_USERINFO_CHAR c \<Longrightarrow>
     http_parse_host_char s c = s_http_userinfo"
  "s \<in> {s_http_userinfo_start, s_http_userinfo} \<Longrightarrow>
     http_parse_host_char s CHR ''@'' = s_http_host_start"
  "IS_HOST_CHAR c \<Longrightarrow> http_parse_host_char s_http_host_start c = s_http_host"
  "IS_HOST_CHAR c \<Longrightarrow> http_parse_host_char s_http_host c = s_http_host"
  "http_parse_host_char s_http_host CHR '':'' = s_http_host_port_start"
  "s \<in> {s_http_host_port_start, s_http_host_port} \<Longrightarrow> is_dec c \<Longrightarrow>
     http_parse_host_char s c = s_http_host_port"
  using class_facts(1,2) [of c] class_facts(4) [of c] class_facts(2) [of "CHR '':''"]
  by (auto simp: http_parse_host_char_def userinfo_neq delimiter_def IS_NUM_iff)

text \<open>
  A run of the host automaton that keeps its state and counts into one field; \<open>g n\<close> is the
  record after \<open>n\<close> counted characters.
\<close>

lemma host_loop_run:
  assumes "s \<noteq> s_http_host_dead"
    and "\<And>i n. host_account s s i (g n) = g (Suc n)"
    and "\<And>c. c \<in> set cs \<Longrightarrow> http_parse_host_char s c = s"
  shows "host_loop s i (cs @ rest) (g n) = host_loop s (i + length cs) rest (g (n + length cs))"
  using assms(3)
proof (induction cs arbitrary: i n)
  case Nil
  then show ?case by simp
next
  case (Cons c cs)
  then show ?case
    using assms(1,2) by simp
qed

lemma host_loop_field:
  assumes "cs \<noteq> []" and "http_parse_host_char s0 (hd cs) = s" and "s \<noteq> s_http_host_dead"
    and "host_account s0 s i u = g 1"
    and "\<And>i n. host_account s s i (g n) = g (Suc n)"
    and "\<And>c. c \<in> set (tl cs) \<Longrightarrow> http_parse_host_char s c = s"
  shows "host_loop s0 i (cs @ rest) u = host_loop s (i + length cs) rest (g (length cs))"
proof -
  obtain c ds where cs: "cs = c # ds"
    using assms(1) by (cases cs) auto
  have "host_loop s0 i (cs @ rest) u = host_loop s (Suc i) (ds @ rest) (g 1)"
    using assms by (simp add: cs)
  also have "\<dots> = host_loop s (Suc i + length ds) rest (g (1 + length ds))"
    using assms by (intro host_loop_run) (auto simp: cs)
  finally show ?thesis by (simp add: cs)
qed

lemma bump_put_field: "bump_len f (put_field f i (of_nat n) u) = put_field f i (of_nat (Suc n)) u"
  by (simp add: bump_len_def put_field_def add.commute)

lemma host_loop_userinfo:
  assumes "x \<noteq> []" and "list_all IS_USERINFO_CHAR x"
  shows "host_loop s_http_userinfo_start i (x @ ''@'' @ rest) u =
    host_loop s_http_host_start (i + length x + 1) rest (set_field UF_USERINFO i (length x) u)"
proof -
  have "host_loop s_http_userinfo_start i (x @ ''@'' @ rest) u =
      host_loop s_http_userinfo (i + length x) (''@'' @ rest)
        (set_field UF_USERINFO i (length x) u)"
    using assms
    by (intro host_loop_field)
       (auto simp: host_moves list_all_iff host_account_def bump_set_field dest: list.set_sel(2),
        simp add: set_field_def bump_len_def put_field_def mark_field_def)
  then show ?thesis
    by (simp add: host_moves host_account_def)
qed

lemma host_loop_host:
  assumes "h \<noteq> []" and "list_all IS_HOST_CHAR h" and "len (field_data u UF_HOST) = 0"
  shows "host_loop s_http_host_start i (h @ rest) u =
    host_loop s_http_host (i + length h) rest (put_field UF_HOST (of_nat i) (of_nat (length h)) u)"
  using assms
  by (intro host_loop_field)
     (auto simp: host_moves list_all_iff host_account_def bump_put_field dest: list.set_sel(2),
      simp add: bump_len_def put_field_def put_off_def)

lemma host_loop_port:
  assumes "\<And>x. p = Some x \<Longrightarrow> x \<noteq> [] \<and> list_all is_dec x"
  shows "host_loop s_http_host i (mark_text CHR '':'' p) u =
    (opt_field UF_PORT (Suc i) p u, if p = None then s_http_host else s_http_host_port)"
proof (cases p)
  case None
  then show ?thesis by (simp add: opt_field_def)
next
  case (Some x)
  have "host_loop s_http_host_port_start (Suc i) (x @ []) u =
      host_loop s_http_host_port (Suc i + length x) [] (set_field UF_PORT (Suc i) (length x) u)"
    using assms [OF Some]
    by (intro host_loop_field)
       (auto simp: host_moves list_all_iff host_account_def bump_set_field dest: list.set_sel(2),
        simp add: set_field_def bump_len_def put_field_def mark_field_def)
  then show ?thesis
    by (simp add: Some opt_field_def host_moves host_account_def)
qed

lemma unat_of_nat16: "n < 65536 \<Longrightarrow> unat (of_nat n :: 16 word) = n"
  by (simp add: unat_of_nat take_bit_eq_mod)

lemma http_parse_host_exact:
  assumes "field_data u UF_HOST = \<lparr>off = of_nat k, len = of_nat n\<rparr>" and "k < 65536" and "n < 65536"
    and "take n (drop k buf) = auth_text ui @ h @ mark_text CHR '':'' p"
    and "\<And>x. ui = Some x \<Longrightarrow> x \<noteq> [] \<and> list_all IS_USERINFO_CHAR x"
    and "h \<noteq> []" and "list_all IS_HOST_CHAR h"
    and "\<And>x. p = Some x \<Longrightarrow> x \<noteq> [] \<and> list_all is_dec x"
  shows "http_parse_host buf u (ui \<noteq> None) =
    (opt_field UF_PORT (k + length (auth_text ui @ h) + 1) p
      (put_field UF_HOST (of_nat (k + length (auth_text ui))) (of_nat (length h))
        (opt_field UF_USERINFO k ui (put_field UF_HOST (of_nat k) 0 u))), 0)"
proof -
  let ?u = "put_field UF_HOST (of_nat k) 0 u"
  let ?s = "if ui \<noteq> None then s_http_userinfo_start else s_http_host_start"
  have start: "host_loop ?s k (auth_text ui @ h @ mark_text CHR '':'' p) ?u =
      host_loop s_http_host_start (k + length (auth_text ui)) (h @ mark_text CHR '':'' p)
        (opt_field UF_USERINFO k ui ?u)"
    using assms(5) by (cases ui) (simp_all add: opt_field_def host_loop_userinfo [simplified])
  have "len (field_data (opt_field UF_USERINFO k ui ?u) UF_HOST) = 0"
    by (cases ui) (simp_all add: opt_field_def set_field_def)
  then have "host_loop ?s k (auth_text ui @ h @ mark_text CHR '':'' p) ?u =
      host_loop s_http_host (k + length (auth_text ui) + length h) (mark_text CHR '':'' p)
        (put_field UF_HOST (of_nat (k + length (auth_text ui))) (of_nat (length h))
          (opt_field UF_USERINFO k ui ?u))"
    unfolding start using assms(6,7) by (rule host_loop_host [rotated 2])
  also have "\<dots> = (opt_field UF_PORT (Suc (k + length (auth_text ui) + length h)) p
        (put_field UF_HOST (of_nat (k + length (auth_text ui))) (of_nat (length h))
          (opt_field UF_USERINFO k ui ?u)), if p = None then s_http_host else s_http_host_port)"
    using assms(8) by (rule host_loop_port)
  finally show ?thesis
    using assms(1-4)
    by (simp add: http_parse_host_def Let_def unat_of_nat16 host_end_ok_def add.assoc)
qed

section \<open>Parsing inverts rendering\<close>

text \<open>
  The text of a URL from its components, and the components read back from a parsed record with
  \<open>copy_url_component\<close>, as the session does.
\<close>

record url_parts =
  scheme :: string
  userinfo :: "string option"
  host :: string
  port_text :: "string option"
  path :: string
  query :: "string option"
  fragment :: "string option"

definition render_url :: "url_parts \<Rightarrow> string" where
  "render_url p =
     scheme p @ ''://'' @ auth_text (userinfo p) @ host p @ mark_text CHR '':'' (port_text p) @
     path p @ mark_text CHR ''?'' (query p) @ mark_text CHR ''#'' (fragment p)"

definition url_parts_ok :: "url_parts \<Rightarrow> bool" where
  "url_parts_ok p \<longleftrightarrow>
     scheme p \<noteq> [] \<and> list_all IS_ALPHA (scheme p) \<and>
     (case userinfo p of None \<Rightarrow> True | Some x \<Rightarrow> x \<noteq> [] \<and> list_all IS_USERINFO_CHAR x) \<and>
     host p \<noteq> [] \<and> list_all IS_HOST_CHAR (host p) \<and>
     (case port_text p of None \<Rightarrow> True
      | Some x \<Rightarrow> x \<noteq> [] \<and> list_all is_dec x \<and> decimal x \<le> 65535) \<and>
     path_ok (path p) \<and> query_ok (query p) \<and> fragment_ok (fragment p) \<and>
     (path p = [] \<and> query p = None \<longrightarrow> fragment p = None) \<and>
     length (render_url p) < 65536"

definition copy_url_component ::
  "string \<Rightarrow> http_parser_url \<Rightarrow> url_field \<Rightarrow> string \<Rightarrow> string" where
  "copy_url_component dest u f url =
     (if has_field u f
      then take (unat (len (field_data u f))) (drop (unat (off (field_data u f))) url)
      else dest)"

definition read_field :: "http_parser_url \<Rightarrow> string \<Rightarrow> url_field \<Rightarrow> string option" where
  "read_field u url f = (if has_field u f then Some (copy_url_component [] u f url) else None)"

definition parts_of :: "http_parser_url \<Rightarrow> string \<Rightarrow> url_parts" where
  "parts_of u url =
     \<lparr>scheme = copy_url_component [] u UF_SCHEMA url,
      userinfo = read_field u url UF_USERINFO,
      host = copy_url_component [] u UF_HOST url,
      port_text = read_field u url UF_PORT,
      path = copy_url_component [] u UF_PATH url,
      query = read_field u url UF_QUERY,
      fragment = read_field u url UF_FRAGMENT\<rparr>"

text \<open>The first loop on a rendered URL: every field with its place, the server part as one.\<close>

definition server_text :: "url_parts \<Rightarrow> string" where
  "server_text p = auth_text (userinfo p) @ host p @ mark_text CHR '':'' (port_text p)"

definition scanned :: "url_parts \<Rightarrow> http_parser_url \<Rightarrow> http_parser_url" where
  "scanned p u =
     (let i = length (scheme p) + 3; j = i + length (server_text p); k = j + length (path p);
          l = k + length (mark_text CHR ''?'' (query p)) in
      opt_field UF_FRAGMENT (Suc l) (fragment p)
        (opt_field UF_QUERY (Suc k) (query p)
          (opt_field UF_PATH j (nonempty (path p))
            (set_field UF_HOST i (length (server_text p))
              (set_field UF_SCHEMA 0 (length (scheme p)) u)))))"

lemma url_parts_okD:
  assumes "url_parts_ok p"
  shows "scheme p \<noteq> []" "list_all IS_ALPHA (scheme p)"
    and "\<And>x. userinfo p = Some x \<Longrightarrow> x \<noteq> [] \<and> list_all IS_USERINFO_CHAR x"
    and "host p \<noteq> []" "list_all IS_HOST_CHAR (host p)"
    and "\<And>x. port_text p = Some x \<Longrightarrow> x \<noteq> [] \<and> list_all is_dec x"
    and "\<And>x. port_text p = Some x \<Longrightarrow> decimal x \<le> 65535"
    and "path_ok (path p)" "query_ok (query p)" "fragment_ok (fragment p)"
    and "fragment p = None \<or> path p \<noteq> [] \<or> query p \<noteq> None"
    and "length (render_url p) < 65536"
  using assms unfolding url_parts_ok_def by (auto split: option.splits)

lemma server_chars:
  assumes "url_parts_ok p"
  shows "host p @ mark_text CHR '':'' (port_text p) \<noteq> []"
    and "list_all IS_USERINFO_CHAR (host p @ mark_text CHR '':'' (port_text p))"
proof -
  have "IS_USERINFO_CHAR CHR '':''"
    by (simp add: IS_USERINFO_CHAR_def)
  then have "list_all IS_USERINFO_CHAR (mark_text CHR '':'' (port_text p))"
    using url_parts_okD(6) [OF assms] class_facts(1,3)
    by (cases "port_text p") (auto simp: list_all_iff)
  then show "list_all IS_USERINFO_CHAR (host p @ mark_text CHR '':'' (port_text p))"
    using url_parts_okD(5) [OF assms] class_facts(1) by (auto simp: list_all_iff)
qed (use url_parts_okD(4) [OF assms] in simp)

lemma url_loop_render:
  assumes "url_parts_ok p"
  shows "\<exists>s. s \<noteq> s_dead \<and>
    url_loop s_req_spaces_before_url None False 0 (render_url p) u =
      (scanned p u, userinfo p \<noteq> None, s)"
proof -
  note ok = url_parts_okD [OF assms]
  let ?fa = "userinfo p \<noteq> None"
  let ?q = "mark_text CHR ''?'' (query p)" and ?f = "mark_text CHR ''#'' (fragment p)"
  let ?i = "length (scheme p) + 3"
  let ?j = "?i + length (server_text p)"
  let ?k = "?j + length (path p)"
  let ?u1 = "set_field UF_SCHEMA 0 (length (scheme p)) u"
  let ?u2 = "set_field UF_HOST ?i (length (server_text p)) ?u1"
  let ?u3 = "opt_field UF_PATH ?j (nonempty (path p)) ?u2"
  let ?u4 = "opt_field UF_QUERY (Suc ?k) (query p) ?u3"
  let ?s3 = "if path p = [] then s_req_server else s_req_path"
  let ?f3 = "if path p = [] then UF_HOST else UF_PATH"
  let ?s4 = "if query p = None then ?s3 else s_req_query_string"
  let ?f4 = "if query p = None then ?f3 else UF_QUERY"
  have "url_loop s_req_spaces_before_url None False 0 (render_url p) u =
      url_loop s_req_server_start (Some UF_SCHEMA) False ?i
        (auth_text (userinfo p) @ (host p @ mark_text CHR '':'' (port_text p)) @ path p @ ?q @ ?f) ?u1"
    using url_loop_scheme [OF ok(1,2)] by (simp add: render_url_def)
  also have "\<dots> = url_loop s_req_server (Some UF_HOST) ?fa ?j (path p @ ?q @ ?f) ?u2"
    unfolding server_text_def using server_chars [OF assms] ok(3) by (rule url_loop_server)
  also have "\<dots> = url_loop ?s3 (Some ?f3) ?fa ?k (?q @ ?f) ?u3"
    using ok(8) by (rule url_loop_path)
  also have "\<dots> = url_loop ?s4 (Some ?f4) ?fa (?k + length ?q) ?f ?u4"
    using ok(9) by (rule url_loop_query) simp_all
  also have "\<dots> = (opt_field UF_FRAGMENT (Suc (?k + length ?q)) (fragment p) ?u4, ?fa,
      if fragment p = None then ?s4 else s_req_fragment)"
    using ok(10) by (rule url_loop_fragment) (use ok(11) in auto)
  finally show ?thesis
    by (simp add: scanned_def Let_def)
qed

text \<open>The record after the host has been taken apart and the port converted.\<close>

definition parsed :: "url_parts \<Rightarrow> http_parser_url \<Rightarrow> http_parser_url" where
  "parsed p u =
     (let i = length (scheme p) + 3; a = length (auth_text (userinfo p)) in
      opt_field UF_PORT (i + a + length (host p) + 1) (port_text p)
        (put_field UF_HOST (of_nat (i + a)) (of_nat (length (host p)))
          (opt_field UF_USERINFO i (userinfo p)
            (put_field UF_HOST (of_nat i) 0 (scanned p u)))))"

definition port_number :: "url_parts \<Rightarrow> nat" where
  "port_number p = (case port_text p of None \<Rightarrow> 0 | Some x \<Rightarrow> decimal x)"

lemma has_field_set [simp]:
  "has_field (set_field f i n u) g \<longleftrightarrow> f = g \<or> has_field u g"
  "has_field (opt_field f i x u) g \<longleftrightarrow> f = g \<and> x \<noteq> None \<or> has_field u g"
  by (auto simp: set_field_def opt_field_def split: option.splits)

lemma field_data_set [simp]:
  "field_data (set_field f i n u) = (field_data u)(f := \<lparr>off = of_nat i, len = of_nat n\<rparr>)"
  by (simp add: set_field_def)

lemma field_data_opt:
  "field_data (opt_field f i x u) g =
     (case x of Some y \<Rightarrow> if g = f then \<lparr>off = of_nat i, len = of_nat (length y)\<rparr> else field_data u g
      | None \<Rightarrow> field_data u g)"
  by (simp add: opt_field_def split: option.splits)

lemma http_parse_host_render:
  assumes "url_parts_ok p"
  shows "http_parse_host (render_url p) (scanned p u) (userinfo p \<noteq> None) = (parsed p u, 0)"
proof -
  note ok = url_parts_okD [OF assms]
  let ?i = "length (scheme p) + 3" and ?n = "length (server_text p)"
  have bound: "?i + ?n < 65536"
    using ok(12) by (simp add: render_url_def server_text_def)
  have "field_data (scanned p u) UF_HOST = \<lparr>off = of_nat ?i, len = of_nat ?n\<rparr>"
    by (simp add: scanned_def Let_def field_data_opt split: option.splits)
  moreover have "take ?n (drop ?i (render_url p)) =
      auth_text (userinfo p) @ host p @ mark_text CHR '':'' (port_text p)"
    by (simp add: render_url_def server_text_def)
  ultimately show ?thesis
    using http_parse_host_exact [of "scanned p u" ?i ?n "render_url p" "userinfo p" "host p" "port_text p"]
      bound ok(3-6)
    by (simp add: parsed_def Let_def add.assoc)
qed

lemma copy_component_slice:
  assumes "has_field u f" and "field_data u f = \<lparr>off = of_nat (length pre), len = of_nat (length x)\<rparr>"
    and "length (pre @ x @ post) < 65536"
  shows "copy_url_component d u f (pre @ x @ post) = x"
  using assms by (simp add: copy_url_component_def unat_of_nat16)

lemma read_opt_slice:
  assumes "has_field u f \<longleftrightarrow> x \<noteq> None"
    and "\<And>y. x = Some y \<Longrightarrow>
      url = pre @ y @ post y \<and> field_data u f = \<lparr>off = of_nat (length pre), len = of_nat (length y)\<rparr>"
    and "length url < 65536"
  shows "read_field u url f = x"
proof (cases x)
  case None
  then show ?thesis using assms(1) by (simp add: read_field_def)
next
  case (Some y)
  then have "copy_url_component [] u f url = y"
    using assms copy_component_slice [of u f pre y "post y"] by simp
  then show ?thesis
    using Some assms(1) by (simp add: read_field_def)
qed

lemma copy_opt_slice:
  "read_field u url f = nonempty x \<Longrightarrow> copy_url_component [] u f url = x"
  by (auto simp: read_field_def nonempty_def copy_url_component_def split: if_splits)

text \<open>
  The rendered URL cut around each component, with the place the parsed record gives it.
\<close>

lemmas placement =
  parsed_def scanned_def Let_def field_data_opt server_text_def nonempty_def render_url_def add.assoc

lemma parsed_server:
  assumes "url_parts_ok p" and "\<And>g. \<not> has_field u g"
  shows "copy_url_component [] (parsed p u) UF_HOST (render_url p) = host p"
    and "read_field (parsed p u) (render_url p) UF_USERINFO = userinfo p"
    and "read_field (parsed p u) (render_url p) UF_PORT = port_text p"
proof -
  let ?a = "scheme p @ ''://''" and ?b = "auth_text (userinfo p)"
  let ?c = "mark_text CHR '':'' (port_text p)"
  let ?d = "path p @ mark_text CHR ''?'' (query p) @ mark_text CHR ''#'' (fragment p)"
  note len = url_parts_okD(12) [OF assms(1)]
  have "copy_url_component [] (parsed p u) UF_HOST ((?a @ ?b) @ host p @ ?c @ ?d) = host p"
    using len by (intro copy_component_slice) (auto simp: placement split: option.splits)
  then show "copy_url_component [] (parsed p u) UF_HOST (render_url p) = host p"
    by (simp add: render_url_def)
  show "read_field (parsed p u) (render_url p) UF_USERINFO = userinfo p"
    using assms(2) len
    by (intro read_opt_slice [where pre = ?a and post = "\<lambda>_. ''@'' @ host p @ ?c @ ?d"])
      (auto simp: placement split: option.splits if_splits)
  show "read_field (parsed p u) (render_url p) UF_PORT = port_text p"
    using assms(2) len
    by (intro read_opt_slice [where pre = "?a @ ?b @ host p @ '':''" and post = "\<lambda>_. ?d"])
      (auto simp: placement split: option.splits if_splits)
qed

lemma parsed_tail:
  assumes "url_parts_ok p" and "\<And>g. \<not> has_field u g"
  shows "read_field (parsed p u) (render_url p) UF_PATH = nonempty (path p)"
    and "read_field (parsed p u) (render_url p) UF_QUERY = query p"
    and "read_field (parsed p u) (render_url p) UF_FRAGMENT = fragment p"
proof -
  let ?a = "scheme p @ ''://'' @ server_text p"
  let ?q = "mark_text CHR ''?'' (query p)" and ?f = "mark_text CHR ''#'' (fragment p)"
  note len = url_parts_okD(12) [OF assms(1)]
  show "read_field (parsed p u) (render_url p) UF_PATH = nonempty (path p)"
    using assms(2) len
    by (intro read_opt_slice [where pre = ?a and post = "\<lambda>_. ?q @ ?f"])
      (auto simp: placement split: option.splits if_splits)
  show "read_field (parsed p u) (render_url p) UF_QUERY = query p"
    using assms(2) len
    by (intro read_opt_slice [where pre = "?a @ path p @ ''?''" and post = "\<lambda>_. ?f"])
      (auto simp: placement split: option.splits)
  show "read_field (parsed p u) (render_url p) UF_FRAGMENT = fragment p"
    using assms(2) len
    by (intro read_opt_slice [where pre = "?a @ path p @ ?q @ ''#''" and post = "\<lambda>_. []"])
      (auto simp: placement split: option.splits)
qed

lemma parsed_scheme:
  assumes "url_parts_ok p"
  shows "copy_url_component [] (parsed p u) UF_SCHEMA (render_url p) = scheme p"
proof -
  let ?rest = "drop (length (scheme p)) (render_url p)"
  have "copy_url_component [] (parsed p u) UF_SCHEMA ([] @ scheme p @ ?rest) = scheme p"
    using url_parts_okD(12) [OF assms] by (intro copy_component_slice)
      (auto simp: placement split: option.splits)
  then show ?thesis
    by (simp add: render_url_def)
qed

lemma parts_of_parsed:
  assumes "url_parts_ok p" and "\<And>g. \<not> has_field u g"
  shows "parts_of (parsed p u) (render_url p) = p"
  using parsed_server [OF assms] parsed_tail [OF assms] parsed_scheme [OF assms(1)]
    copy_opt_slice [OF parsed_tail(1) [OF assms]]
  by (simp add: parts_of_def)

section \<open>The port number\<close>

lemma rendered_port:
  assumes "url_parts_ok p" and "port_text p = Some x"
  shows "strtoul10 (drop (unat (off (field_data (parsed p u) UF_PORT))) (render_url p)) = decimal x"
proof -
  note ok = url_parts_okD [OF assms(1)]
  define pre where "pre = scheme p @ ''://'' @ auth_text (userinfo p) @ host p @ '':''"
  let ?rest = "path p @ mark_text CHR ''?'' (query p) @ mark_text CHR ''#'' (fragment p)"
  have url: "render_url p = pre @ x @ ?rest"
    by (simp add: render_url_def assms(2) pre_def)
  then have "length pre < 65536"
    using ok(12) by simp
  moreover have "off (field_data (parsed p u) UF_PORT) = of_nat (length pre)"
    by (simp add: placement assms(2) pre_def)
  ultimately have "drop (unat (off (field_data (parsed p u) UF_PORT))) (render_url p) = x @ ?rest"
    unfolding url by (simp add: unat_of_nat16)
  moreover have "?rest = [] \<or> \<not> is_dec (hd ?rest)"
    using ok(8,11)
    by (cases "query p"; cases "fragment p"; cases "path p") (auto simp: path_ok_def is_dec_def)
  then have "takeWhile is_dec (x @ ?rest) = x"
    using ok(6) [OF assms(2)] by (intro takeWhile_append_stop) (auto simp: list_all_iff)
  ultimately show ?thesis
    using ok(6,7) [OF assms(2)] strtoul10_digit [of "x @ ?rest"]
    by (cases x) (auto simp: strtoul_digits_def)
qed

lemma parts_of_port [simp]: "parts_of (port_update h u) url = parts_of u url"
  by (simp add: parts_of_def read_field_def copy_url_component_def)

lemma parsed_has_host [simp]: "has_field (parsed p u) UF_HOST"
  by (simp add: parsed_def scanned_def Let_def)

lemma http_parser_parse_url_render:
  assumes "url_parts_ok p"
  shows "\<exists>u'. http_parser_parse_url (render_url p) False u = (u', 0) \<and>
    parts_of u' (render_url p) = p \<and> unat (port u') = port_number p"
proof -
  let ?u = "u\<lparr>port := 0, field_set := 0\<rparr>"
  have empty: "\<not> has_field ?u g" for g
    by (simp add: has_field_def)
  obtain s where "s \<noteq> s_dead" and loop:
      "url_loop s_req_spaces_before_url None False 0 (render_url p) ?u =
        (scanned p ?u, userinfo p \<noteq> None, s)"
    using url_loop_render [OF assms] by blast
  then have run: "http_parser_parse_url (render_url p) False u =
      parse_url_port (render_url p) (parsed p ?u)"
    using http_parse_host_render [OF assms, of ?u]
    by (simp add: http_parser_parse_url_def Let_def parse_url_finish_def scanned_def)
  have parts: "parts_of (parsed p ?u) (render_url p) = p"
    using assms empty by (rule parts_of_parsed)
  show ?thesis
  proof (cases "port_text p")
    case None
    then have "\<not> has_field (parsed p ?u) UF_PORT" and "port (parsed p ?u) = 0"
      using empty by (simp_all add: parsed_def scanned_def Let_def)
    then show ?thesis
      using None parts by (simp add: run parse_url_port_def port_number_def)
  next
    case (Some x)
    then have "has_field (parsed p ?u) UF_PORT"
      by (simp add: placement)
    then show ?thesis
      using Some parts rendered_port [OF assms Some, of ?u] url_parts_okD(7) [OF assms Some]
      by (simp add: run parse_url_port_def port_number_def Let_def unat_of_nat16)
  qed
qed

text \<open>
  C12: Parsing inverts rendering. For every URL written from well-formed components (a scheme, an
  optional user part, a host name, an optional port up to 65535, an optional path, query and
  fragment, at most 65535 characters in all) \<open>http_parser_parse_url\<close> returns 0, the components
  read back from the record are exactly those the URL was written from, and the port is the number
  its digits denote.
\<close>

theorem url_parse_inverts_render:
  assumes "url_parts_ok p"
  shows "\<exists>u'. http_parser_parse_url (render_url p) False u = (u', 0) \<and>
    parts_of u' (render_url p) = p \<and> unat (port u') = port_number p"
  using assms by (rule http_parser_parse_url_render)

text \<open>A URL with every component, used to apply the theorem.\<close>

definition sample_url :: url_parts where
  "sample_url =
     \<lparr>scheme = ''https'', userinfo = Some ''bob:pw'', host = ''a-b.org'', port_text = Some ''8443'',
      path = ''/x'', query = Some ''k=v'', fragment = Some ''top''\<rparr>"

definition zero_url :: http_parser_url where
  "zero_url = \<lparr>field_set = 0, port = 0, field_data = \<lambda>_. \<lparr>off = 0, len = 0\<rparr>\<rparr>"

lemma sample_url_ok: "url_parts_ok sample_url"
  by (simp add: sample_url_def url_parts_ok_def render_url_def path_ok_def query_ok_def fragment_ok_def
      IS_USERINFO_CHAR_def IS_HOST_CHAR_def IS_ALPHANUM_def IS_MARK_def char_simps is_dec_def
      decimal_def dec_digit_def)

lemma sample_url_text: "render_url sample_url = ''https://bob:pw@a-b.org:8443/x?k=v#top''"
  by code_simp

theorem url_parse_inverts_render_witness:
  "\<exists>u'. http_parser_parse_url ''https://bob:pw@a-b.org:8443/x?k=v#top'' False zero_url = (u', 0) \<and>
     parts_of u' ''https://bob:pw@a-b.org:8443/x?k=v#top'' = sample_url \<and>
     unat (port u') = port_number sample_url"
  using url_parse_inverts_render [OF sample_url_ok, of zero_url] unfolding sample_url_text .

theorem url_with_blank_rejected_witness:
  "snd (http_parser_parse_url ''http://a b/'' False zero_url) = 1"
  using url_with_blank_rejected [of "CHR '' ''" "''http://a b/''" False zero_url] by simp


end
