(* ===== verification/Url_Bounds.thy ===== *)
theory Url_Bounds
  imports Url_Parser
begin

text \<open>
  What \<open>http_parser_parse_url\<close> records, for every input and whatever it returns: the loops of
  \<open>Url_Parser\<close> never name a place outside the URL, although offsets and lengths are 16-bit words
  that wrap, and never clear a field once it is recorded.
\<close>

section \<open>Every recorded component lies inside the URL\<close>

definition field_end :: "http_parser_url \<Rightarrow> url_field \<Rightarrow> nat" where
  "field_end u f = unat (off (field_data u f)) + unat (len (field_data u f))"

lemma unat_word16_bounds:
  "unat (of_nat i :: 16 word) \<le> i" "unat (w + 1 :: 16 word) \<le> Suc (unat w)"
proof -
  show "unat (of_nat i :: 16 word) \<le> i"
    by (simp add: unat_of_nat take_bit_eq_mod)
  show "unat (w + 1) \<le> Suc (unat w)"
    by (cases "w + 1 = 0") (auto simp: unatSuc add.commute [of w])
qed

lemma field_end_put:
  "field_end (put_field f (of_nat i) 1 u) f \<le> Suc i"
  "field_end (put_field f (of_nat i) 0 u) f \<le> i"
  "field_end (bump_len f u) f \<le> Suc (field_end u f)"
  using unat_word16_bounds(1) [of i] unat_word16_bounds(2) [of "len (field_data u f)"]
  by (auto simp: field_end_def)

lemma field_end_other [simp]:
  "f \<noteq> g \<Longrightarrow> field_end (put_field f o' l u) g = field_end u g"
  "f \<noteq> g \<Longrightarrow> field_end (put_off f o' u) g = field_end u g"
  "f \<noteq> g \<Longrightarrow> field_end (bump_len f u) g = field_end u g"
  "field_end (mark_field h u) g = field_end u g"
  "field_end (port_update r u) g = field_end u g"
  by (simp_all add: field_end_def put_field_def put_off_def bump_len_def mark_field_def)

text \<open>The scanning loop keeps every field it has recorded within the characters it has read.\<close>

definition fields_within :: "http_parser_url \<Rightarrow> nat \<Rightarrow> bool" where
  "fields_within u n \<longleftrightarrow> (\<forall>f. has_field u f \<longrightarrow> field_end u f \<le> n)"

lemma fields_within_mono: "fields_within u m \<Longrightarrow> m \<le> n \<Longrightarrow> fields_within u n"
  by (auto simp: fields_within_def intro: order_trans)

lemma fields_within_bump:
  "fields_within u i \<Longrightarrow> has_field u f \<Longrightarrow> fields_within (bump_len f u) (Suc i)"
  using field_end_put(3) [of f u] unfolding fields_within_def
  by (metis Suc_le_mono field_end_other(3) has_field_put(3) le_SucI le_trans)

lemma fields_within_start:
  "fields_within u i \<Longrightarrow> fields_within (mark_field f (put_field f (of_nat i) 1 u)) (Suc i)"
  using field_end_put(1) [of f i u] unfolding fields_within_def
  by (metis field_end_other(1,4) has_field_mark has_field_put(1) le_SucI)

lemma url_loop_within:
  assumes "fields_within u i" and "\<And>f. old = Some f \<Longrightarrow> has_field u f"
  shows "fields_within (fst (url_loop s old fa i cs u)) (i + length cs)"
  using assms
proof (induction cs arbitrary: s old fa i u)
  case Nil
  then show ?case by simp
next
  case (Cons c cs)
  have here: "fields_within u (i + length (c # cs))"
    using Cons.prems(1) by (rule fields_within_mono) simp
  show ?case
  proof (cases "url_action (parse_url_char s c)")
    case Skip
    then show ?thesis
      using Cons.IH [of u "Suc i" old] Cons.prems fields_within_mono [of u i "Suc i"]
      by (simp add: Let_def)
  next
    case (Collect f)
    show ?thesis
    proof (cases "old = Some f")
      case True
      then show ?thesis
        using Collect Cons.IH [of "bump_len f u" "Suc i" old] Cons.prems fields_within_bump
        by (simp add: Let_def)
    next
      case False
      then show ?thesis
        using Collect Cons.IH [of "mark_field f (put_field f (of_nat i) 1 u)" "Suc i" "Some f"]
          fields_within_start [OF Cons.prems(1)]
        by (simp add: Let_def)
    qed
  qed (use here in \<open>simp_all add: Let_def\<close>)
qed

lemma url_loop_server_fields:
  "f \<in> {UF_PORT, UF_USERINFO} \<Longrightarrow>
     has_field (fst (url_loop s old fa i cs u)) f \<longleftrightarrow> has_field u f"
proof (induction cs arbitrary: s old fa i u)
  case Nil
  then show ?case by simp
next
  case (Cons c cs)
  moreover have "url_action t \<noteq> Collect f" for t
    using Cons.prems by (cases t) auto
  ultimately show ?case
    by (auto simp: Let_def split: url_step.split)
qed

text \<open>The host loop, with the fields it may touch and the states in which the length is 0.\<close>

definition host_within :: "http_host_state \<Rightarrow> nat \<Rightarrow> http_parser_url \<Rightarrow> bool" where
  "host_within s i u \<longleftrightarrow>
     (\<forall>f\<in>{UF_HOST, UF_PORT, UF_USERINFO}. has_field u f \<longrightarrow> field_end u f \<le> i) \<and>
     field_end u UF_HOST \<le> i \<and>
     (s \<in> {s_http_userinfo_start, s_http_userinfo, s_http_host_start, s_http_host_v6_start} \<longrightarrow>
        len (field_data u UF_HOST) = 0) \<and>
     (s = s_http_host_port \<longrightarrow> has_field u UF_PORT) \<and>
     (s = s_http_userinfo \<longrightarrow> has_field u UF_USERINFO)"

lemmas host_account_simps = host_account_def host_within_def

lemma host_within_mono: "host_within s i u \<Longrightarrow> host_within s (Suc i) u"
  by (auto simp: host_within_def)

text \<open>The predecessors of the states in which a component is being counted.\<close>

lemma host_predecessor:
  "http_parse_host_char s c = s_http_host \<Longrightarrow> s \<in> {s_http_host_start, s_http_host}"
  "http_parse_host_char s c = s_http_host_v6 \<Longrightarrow> s \<in> {s_http_host_v6_start, s_http_host_v6}"
  "http_parse_host_char s c \<in> {s_http_userinfo, s_http_host_start} \<Longrightarrow>
     s \<in> {s_http_userinfo_start, s_http_userinfo}"
  "http_parse_host_char s c = s_http_host_v6_start \<Longrightarrow> s = s_http_host_start"
  "http_parse_host_char s c = s_http_host_port \<Longrightarrow> s \<in> {s_http_host_port_start, s_http_host_port}"
  "http_parse_host_char s c \<noteq> s_http_userinfo_start"
  by (cases s; auto simp: http_parse_host_char_def host_v6_tail_def host_zone_tail_def
      split: if_splits)+

lemma bump_host:
  assumes "field_end u UF_HOST \<le> i"
    and "\<forall>f\<in>{UF_PORT, UF_USERINFO}. has_field u f \<longrightarrow> field_end u f \<le> i"
  shows "\<forall>f\<in>{UF_HOST, UF_PORT, UF_USERINFO}. has_field (bump_len UF_HOST u) f \<longrightarrow>
      field_end (bump_len UF_HOST u) f \<le> Suc i"
    and "field_end (bump_len UF_HOST u) UF_HOST \<le> Suc i"
  using assms field_end_put(3) [of UF_HOST u] by auto

lemma put_off_host:
  assumes "len (field_data u UF_HOST) = 0"
  shows "field_end (put_off UF_HOST (of_nat i) u) UF_HOST \<le> i"
  using assms unat_word16_bounds(1) [of i] by (simp add: field_end_def)

lemma bump_other:
  assumes "field_end u f \<le> i" and "f \<in> {UF_PORT, UF_USERINFO}"
    and "\<forall>g\<in>{UF_HOST, UF_PORT, UF_USERINFO}. has_field u g \<longrightarrow> field_end u g \<le> i"
    and "field_end u UF_HOST \<le> i"
  shows "\<forall>g\<in>{UF_HOST, UF_PORT, UF_USERINFO}. has_field (bump_len f u) g \<longrightarrow>
      field_end (bump_len f u) g \<le> Suc i"
    and "field_end (bump_len f u) UF_HOST \<le> Suc i"
  using assms field_end_put(3) [of f u] by auto

lemma host_within_step:
  assumes "host_within s i u" and "http_parse_host_char s c = t" and "t \<noteq> s_http_host_dead"
  shows "host_within t (Suc i) (host_account s t i u)"
proof -
  have inv: "\<forall>f\<in>{UF_HOST, UF_PORT, UF_USERINFO}. has_field u f \<longrightarrow> field_end u f \<le> i"
      "field_end u UF_HOST \<le> i"
    using assms(1) by (simp_all add: host_within_def)
  note pred = host_predecessor [of s c, unfolded assms(2)]
  show ?thesis
  proof (cases t)
    case s_http_host
    define v where "v = (if s \<noteq> s_http_host then put_off UF_HOST (of_nat i) u else u)"
    have "field_end v UF_HOST \<le> i"
      using pred(1) s_http_host assms(1) put_off_host [of u i]
      by (auto simp: v_def host_within_def)
    moreover have "\<forall>f\<in>{UF_PORT, UF_USERINFO}. has_field v f \<longrightarrow> field_end v f \<le> i"
      using inv by (auto simp: v_def)
    ultimately show ?thesis
      using bump_host [of v i] s_http_host by (simp add: host_account_def host_within_def v_def)
  next
    case s_http_host_v6
    define v where "v = (if s \<noteq> s_http_host_v6 then put_off UF_HOST (of_nat i) u else u)"
    have "field_end v UF_HOST \<le> i"
      using pred(2) s_http_host_v6 assms(1) put_off_host [of u i]
      by (auto simp: v_def host_within_def)
    moreover have "\<forall>f\<in>{UF_PORT, UF_USERINFO}. has_field v f \<longrightarrow> field_end v f \<le> i"
      using inv by (auto simp: v_def)
    ultimately show ?thesis
      using bump_host [of v i] s_http_host_v6 by (simp add: host_account_def host_within_def v_def)
  next
    case s_http_host_port
    define v where "v = (if s \<noteq> s_http_host_port
      then mark_field UF_PORT (put_field UF_PORT (of_nat i) 0 u) else u)"
    have "field_end v UF_PORT \<le> i" and "has_field v UF_PORT"
      using inv assms(1) s_http_host_port pred(5) field_end_put(2) [of UF_PORT i u]
      by (auto simp: v_def host_within_def)
    moreover from this have "\<forall>g\<in>{UF_HOST, UF_PORT, UF_USERINFO}. has_field v g \<longrightarrow> field_end v g \<le> i"
        "field_end v UF_HOST \<le> i"
      using inv by (auto simp: v_def)
    ultimately show ?thesis
      using bump_other [of v UF_PORT i] s_http_host_port
      by (simp add: host_account_def host_within_def v_def)
  next
    case s_http_userinfo
    define v where "v = (if s \<noteq> s_http_userinfo
      then mark_field UF_USERINFO (put_field UF_USERINFO (of_nat i) 0 u) else u)"
    have "field_end v UF_USERINFO \<le> i" and "has_field v UF_USERINFO"
      using inv assms(1) s_http_userinfo pred(3) field_end_put(2) [of UF_USERINFO i u]
      by (auto simp: v_def host_within_def)
    moreover from this have "\<forall>g\<in>{UF_HOST, UF_PORT, UF_USERINFO}. has_field v g \<longrightarrow> field_end v g \<le> i"
        "field_end v UF_HOST \<le> i"
      using inv by (auto simp: v_def)
    moreover have "len (field_data v UF_HOST) = 0"
      using assms(1) s_http_userinfo pred(3) by (auto simp: v_def host_within_def)
    ultimately show ?thesis
      using bump_other [of v UF_USERINFO i] s_http_userinfo
      by (simp add: host_account_def host_within_def v_def)
  next
    case s_http_host_v6_zone_start
    then show ?thesis
      using bump_host [of u i] inv by (simp add: host_account_def host_within_def)
  next
    case s_http_host_v6_zone
    then show ?thesis
      using bump_host [of u i] inv by (simp add: host_account_def host_within_def)
  qed (use inv assms pred in \<open>auto simp: host_account_def host_within_def\<close>)
qed

lemma host_loop_within:
  "host_within s i u \<Longrightarrow> \<exists>t. host_within t (i + length cs) (fst (host_loop s i cs u))"
proof (induction cs arbitrary: s i u)
  case Nil
  then show ?case by auto
next
  case (Cons c cs)
  show ?case
  proof (cases "http_parse_host_char s c = s_http_host_dead")
    case True
    have "host_within s_http_host_dead (i + length (c # cs)) u"
      using Cons.prems by (auto simp: host_within_def)
    then show ?thesis
      using True by (auto simp: Let_def)
  next
    case False
    then show ?thesis
      using Cons.IH [OF host_within_step [OF Cons.prems refl False]] by (simp add: Let_def)
  qed
qed

lemma host_account_frame:
  "f \<notin> {UF_HOST, UF_PORT, UF_USERINFO} \<Longrightarrow>
     has_field (host_account s t i u) f = has_field u f \<and>
     field_end (host_account s t i u) f = field_end u f"
  by (cases t) (auto simp: host_account_def)

lemma host_loop_frame:
  "f \<notin> {UF_HOST, UF_PORT, UF_USERINFO} \<Longrightarrow>
     has_field (fst (host_loop s i cs u)) f = has_field u f \<and>
     field_end (fst (host_loop s i cs u)) f = field_end u f"
  by (induction cs arbitrary: s i u) (simp_all add: Let_def host_account_frame)

lemma http_parse_host_within:
  assumes "fields_within u (length buf)" and "has_field u UF_HOST"
    and "\<not> has_field u UF_PORT" and "\<not> has_field u UF_USERINFO"
  shows "fields_within (fst (http_parse_host buf u fa)) (length buf)"
proof -
  define o' where "o' = unat (off (field_data u UF_HOST))"
  define l where "l = unat (len (field_data u UF_HOST))"
  define v where "v = put_field UF_HOST (off (field_data u UF_HOST)) 0 u"
  define s where "s = (if fa then s_http_userinfo_start else s_http_host_start)"
  define cs where "cs = take l (drop o' buf)"
  have room: "o' + l \<le> length buf"
    using assms(1,2) by (auto simp: fields_within_def field_end_def o'_def l_def)
  have "host_within s o' v"
    using assms(3,4) by (auto simp: host_within_def s_def v_def field_end_def o'_def)
  then obtain t where t: "host_within t (o' + length cs) (fst (host_loop s o' cs v))"
    using host_loop_within by blast
  have "fields_within (fst (host_loop s o' cs v)) (length buf)"
    unfolding fields_within_def
  proof (intro allI impI)
    fix f
    assume set: "has_field (fst (host_loop s o' cs v)) f"
    show "field_end (fst (host_loop s o' cs v)) f \<le> length buf"
    proof (cases "f \<in> {UF_HOST, UF_PORT, UF_USERINFO}")
      case True
      then have "field_end (fst (host_loop s o' cs v)) f \<le> o' + length cs"
        using t set unfolding host_within_def by blast
      also have "\<dots> \<le> length buf"
        using room by (simp add: cs_def)
      finally show ?thesis .
    next
      case False
      then show ?thesis
        using set assms(1) host_loop_frame [OF False, of s o' cs v]
        by (auto simp: fields_within_def v_def)
    qed
  qed
  moreover have "fst (http_parse_host buf u fa) = fst (host_loop s o' cs v)"
    unfolding http_parse_host_def Let_def o'_def [symmetric] l_def [symmetric] v_def [symmetric]
      s_def [symmetric] cs_def [symmetric]
    by (simp split: prod.split)
  ultimately show ?thesis
    by simp
qed

lemma parse_url_finish_frame:
  "fields_within (fst (parse_url_finish buf ic u)) n \<longleftrightarrow> fields_within u n"
  by (simp add: parse_url_finish_def parse_url_port_def fields_within_def Let_def)

text \<open>
  C21: Whatever the input, and also when the parser rejects it, every component the record marks as
  present lies inside the URL: offset plus length is at most the length of the text, although both
  are 16-bit words that wrap on longer inputs.
\<close>

theorem parse_url_fields_in_bounds:
  assumes "fst (http_parser_parse_url buf is_connect u) = r" and "has_field r f"
  shows "unat (off (field_data r f)) + unat (len (field_data r f)) \<le> length buf"
proof -
  define s where "s = (if is_connect then s_req_server_start else s_req_spaces_before_url)"
  let ?u = "u\<lparr>port := 0, field_set := 0\<rparr>"
  have none: "\<not> has_field ?u g" for g
    by (simp add: has_field_def)
  obtain v fa t where run: "url_loop s None False 0 buf ?u = (v, fa, t)"
    by (metis prod.exhaust)
  have v: "fields_within v (length buf)"
    using url_loop_within [of ?u 0 None s False buf] none run by (simp add: fields_within_def)
  have fresh: "\<not> has_field v UF_PORT" "\<not> has_field v UF_USERINFO"
    using url_loop_server_fields [of _ s None False 0 buf ?u] none run by auto
  have "fields_within r (length buf)"
    using assms(1) v http_parse_host_within [OF v _ fresh, of fa]
    by (auto simp: http_parser_parse_url_def Let_def run s_def [symmetric] parse_url_finish_frame
        split: prod.splits if_splits)
  then show ?thesis
    using assms(2) by (simp add: fields_within_def field_end_def)
qed

theorem parse_url_fields_in_bounds_witness:
  "(let r = fst (http_parser_parse_url ''http://h:80x'' False zero_url) in
    has_field r UF_PORT \<and> unat (off (field_data r UF_PORT)) + unat (len (field_data r UF_PORT)) \<le> 12)"
proof -
  have "has_field (fst (http_parser_parse_url ''http://h:80x'' False zero_url)) UF_PORT"
    by code_simp
  then show ?thesis
    using parse_url_fields_in_bounds [of "''http://h:80x''" False zero_url, OF refl]
    by (simp add: Let_def eval_nat_numeral)
qed

end
