(* ===== verification/Url_Language.thy ===== *)
theory Url_Language
  imports Url_Bounds
begin

text \<open>
  The language of \<open>http_parser_parse_url\<close>: a grammar of URLs, written with three combinators, and the proof
  that the two automata and the two loops of \<open>Url_Parser\<close> accept exactly the URLs of this grammar.
\<close>

lemma host_chars:
  "\<not> IS_HOST_CHAR CHR '':''" "\<not> IS_HOST_CHAR CHR ''[''" "\<not> IS_USERINFO_CHAR CHR ''@''"
  by code_simp+

lemma v6_chars: "\<not> IS_HEX CHR ''%''" "\<not> IS_HEX CHR '']''" "\<not> IS_ALPHANUM CHR '']''"
  by code_simp+

section \<open>Combinators\<close>

definition run_then :: "(char \<Rightarrow> bool) \<Rightarrow> (string \<Rightarrow> bool) \<Rightarrow> string \<Rightarrow> bool" where
  "run_then P Q x \<longleftrightarrow> (\<exists>y z. x = y @ z \<and> list_all P y \<and> Q z)"

definition run1_then :: "(char \<Rightarrow> bool) \<Rightarrow> (string \<Rightarrow> bool) \<Rightarrow> string \<Rightarrow> bool" where
  "run1_then P Q x \<longleftrightarrow> (\<exists>c y. x = c # y \<and> P c \<and> run_then P Q y)"

definition behind :: "char \<Rightarrow> (string \<Rightarrow> bool) \<Rightarrow> string \<Rightarrow> bool" where
  "behind m Q x \<longleftrightarrow> (\<exists>y. x = m # y \<and> Q y)"

definition optionally :: "char \<Rightarrow> (string \<Rightarrow> bool) \<Rightarrow> string \<Rightarrow> bool" where
  "optionally m Q x \<longleftrightarrow> x = [] \<or> behind m Q x"

lemma run_then_Nil: "run_then P Q [] = Q []"
  by (simp add: run_then_def)

lemma run_then_Cons:
  assumes "\<And>d ds. P d \<Longrightarrow> \<not> Q (d # ds)"
  shows "run_then P Q (c # cs) = (if P c then run_then P Q cs else Q (c # cs))"
proof
  assume "run_then P Q (c # cs)"
  then obtain y z where yz: "c # cs = y @ z" "list_all P y" "Q z"
    by (auto simp: run_then_def)
  then show "if P c then run_then P Q cs else Q (c # cs)"
    using assms by (cases y) (auto simp: run_then_def)
next
  assume "if P c then run_then P Q cs else Q (c # cs)"
  moreover have "run_then P Q (c # cs)" if "P c" "cs = y @ z" "list_all P y" "Q z" for y z
    unfolding run_then_def using that by (intro exI [of _ "c # y"] exI [of _ z]) simp
  moreover have "run_then P Q (c # cs)" if "Q (c # cs)"
    unfolding run_then_def using that by (intro exI [of _ "[]"] exI [of _ "c # cs"]) simp
  ultimately show "run_then P Q (c # cs)"
    by (auto simp: run_then_def split: if_splits)
qed

lemma run1_then_Nil: "run1_then P Q [] = False"
  by (simp add: run1_then_def)

lemma run1_then_Cons: "run1_then P Q (c # cs) = (P c \<and> run_then P Q cs)"
  by (auto simp: run1_then_def)

lemma behind_simps: "behind m Q [] = False" "behind m Q (c # cs) = (c = m \<and> Q cs)"
  by (auto simp: behind_def)

lemma optionally_simps: "optionally m Q []" "optionally m Q (c # cs) = (c = m \<and> Q cs)"
  by (auto simp: optionally_def behind_def)

lemmas combinator_simps = run_then_Nil run1_then_Nil run1_then_Cons behind_simps optionally_simps

section \<open>The grammar\<close>

text \<open>What may follow the server, up to the end of the URL.\<close>

definition query_char :: "char \<Rightarrow> bool" where
  "query_char c \<longleftrightarrow> IS_URL_CHAR c \<or> c = CHR ''?''"

definition fragment_char :: "char \<Rightarrow> bool" where
  "fragment_char c \<longleftrightarrow> IS_URL_CHAR c \<or> c = CHR ''?'' \<or> c = CHR ''#''"

definition fragment_text :: "string \<Rightarrow> bool" where
  "fragment_text x \<longleftrightarrow> list_all fragment_char x"

definition query_text :: "string \<Rightarrow> bool" where
  "query_text = run_then query_char (optionally CHR ''#'' fragment_text)"

definition path_text :: "string \<Rightarrow> bool" where
  "path_text = run_then IS_URL_CHAR
     (\<lambda>z. optionally CHR ''?'' query_text z \<or> behind CHR ''#'' fragment_text z)"

definition target_text :: "string \<Rightarrow> bool" where
  "target_text x \<longleftrightarrow> optionally CHR ''/'' path_text x \<or> behind CHR ''?'' query_text x"

text \<open>The server: user information, a host name or an address in brackets, a port that satisfies \<open>D\<close>.\<close>

definition address_char :: "char \<Rightarrow> bool" where
  "address_char c \<longleftrightarrow> IS_HEX c \<or> c = CHR '':'' \<or> c = CHR ''.''"

definition zone_char :: "char \<Rightarrow> bool" where
  "zone_char c \<longleftrightarrow> IS_ALPHANUM c \<or> c \<in> set ''%.-_~''"

definition address_end :: "(string \<Rightarrow> bool) \<Rightarrow> string \<Rightarrow> bool" where
  "address_end D = behind CHR '']'' (optionally CHR '':'' D)"

definition zone_end :: "(string \<Rightarrow> bool) \<Rightarrow> string \<Rightarrow> bool" where
  "zone_end D x \<longleftrightarrow> address_end D x \<or> behind CHR ''%'' (run1_then zone_char (address_end D)) x"

definition host_port :: "(string \<Rightarrow> bool) \<Rightarrow> string \<Rightarrow> bool" where
  "host_port D x \<longleftrightarrow>
     run1_then IS_HOST_CHAR (optionally CHR '':'' D) x \<or>
     behind CHR ''['' (run1_then address_char (zone_end D)) x"

definition server_part :: "(string \<Rightarrow> bool) \<Rightarrow> string \<Rightarrow> bool" where
  "server_part D x \<longleftrightarrow> host_port D x \<or> run_then IS_USERINFO_CHAR (behind CHR ''@'' (host_port D)) x"

definition digits :: "string \<Rightarrow> bool" where
  "digits x \<longleftrightarrow> x \<noteq> [] \<and> list_all is_dec x"

definition port_digits :: "string \<Rightarrow> bool" where
  "port_digits x \<longleftrightarrow> digits x \<and> decimal x \<le> 65535"

text \<open>A URL is empty, a path (or \<open>*\<close>), or a scheme, a server and a target.\<close>

inductive url_text :: "string \<Rightarrow> bool" where
  url_empty: "url_text []"
| url_relative: "c \<in> {CHR ''/'', CHR ''*''} \<Longrightarrow> path_text x \<Longrightarrow> url_text (c # x)"
| url_absolute: "sch \<noteq> [] \<Longrightarrow> list_all IS_ALPHA sch \<Longrightarrow> server_part port_digits srv \<Longrightarrow> target_text x \<Longrightarrow>
     url_text (sch @ ''://'' @ srv @ x)"

section \<open>The host automaton\<close>

text \<open>What the automaton still accepts in each state, when \<open>D\<close> is what it accepts as a port.\<close>

fun host_lang :: "(string \<Rightarrow> bool) \<Rightarrow> http_host_state \<Rightarrow> string \<Rightarrow> bool" where
  "host_lang D s_http_host_dead x = False"
| "host_lang D s_http_userinfo_start x = run_then IS_USERINFO_CHAR (behind CHR ''@'' (host_port D)) x"
| "host_lang D s_http_userinfo x = run_then IS_USERINFO_CHAR (behind CHR ''@'' (host_port D)) x"
| "host_lang D s_http_host_start x = host_port D x"
| "host_lang D s_http_host_v6_start x = run1_then address_char (zone_end D) x"
| "host_lang D s_http_host x = run_then IS_HOST_CHAR (optionally CHR '':'' D) x"
| "host_lang D s_http_host_v6 x = run_then address_char (zone_end D) x"
| "host_lang D s_http_host_v6_end x = optionally CHR '':'' D x"
| "host_lang D s_http_host_v6_zone_start x = run1_then zone_char (address_end D) x"
| "host_lang D s_http_host_v6_zone x = run_then zone_char (address_end D) x"
| "host_lang D s_http_host_port_start x = D x"
| "host_lang D s_http_host_port x = list_all is_dec x"

lemma address_chars: "\<not> address_char CHR '']''" "\<not> address_char CHR ''%''" "\<not> zone_char CHR '']''"
  using v6_chars by (simp_all add: address_char_def zone_char_def)

lemma part_simps:
  "address_end D [] = False" "address_end D (c # cs) = (c = CHR '']'' \<and> optionally CHR '':'' D cs)"
  "zone_end D [] = False"
  "zone_end D (c # cs) = (c = CHR '']'' \<and> optionally CHR '':'' D cs \<or>
     c = CHR ''%'' \<and> run1_then zone_char (address_end D) cs)"
  "host_port D [] = False"
  "host_port D (c # cs) = (IS_HOST_CHAR c \<and> run_then IS_HOST_CHAR (optionally CHR '':'' D) cs \<or>
     c = CHR ''['' \<and> run1_then address_char (zone_end D) cs)"
  by (simp_all add: address_end_def zone_end_def host_port_def combinator_simps)

lemma run_then_steps:
  "run_then IS_HOST_CHAR (optionally CHR '':'' D) (c # cs) =
     (if IS_HOST_CHAR c then run_then IS_HOST_CHAR (optionally CHR '':'' D) cs else c = CHR '':'' \<and> D cs)"
  "run_then IS_USERINFO_CHAR (behind CHR ''@'' Q) (c # cs) =
     (if IS_USERINFO_CHAR c then run_then IS_USERINFO_CHAR (behind CHR ''@'' Q) cs else c = CHR ''@'' \<and> Q cs)"
  "run_then zone_char (address_end D) (c # cs) =
     (if zone_char c then run_then zone_char (address_end D) cs else address_end D (c # cs))"
  "run_then address_char (zone_end D) (c # cs) =
     (if address_char c then run_then address_char (zone_end D) cs else zone_end D (c # cs))"
  using host_chars address_chars by (subst run_then_Cons; force simp: combinator_simps part_simps)+

lemma v6_moves:
  "http_parse_host_char s_http_host_v6_start c = (if address_char c then s_http_host_v6 else s_http_host_dead)"
  "http_parse_host_char s_http_host_v6 c =
     (if c = CHR '']'' then s_http_host_v6_end else if address_char c then s_http_host_v6
      else if c = CHR ''%'' then s_http_host_v6_zone_start else s_http_host_dead)"
  "http_parse_host_char s_http_host_v6_zone_start c = (if zone_char c then s_http_host_v6_zone else s_http_host_dead)"
  "http_parse_host_char s_http_host_v6_zone c =
     (if c = CHR '']'' then s_http_host_v6_end else if zone_char c then s_http_host_v6_zone else s_http_host_dead)"
  by (simp_all add: http_parse_host_char_def host_v6_tail_def host_zone_tail_def address_char_def zone_char_def)

lemma host_lang_step:
  assumes "s \<noteq> s_http_host_port_start" and "s \<noteq> s_http_host_port"
  shows "host_lang D s (c # cs) = host_lang D (http_parse_host_char s c) cs"
proof -
  have plain: "http_parse_host_char s_http_host_dead c = s_http_host_dead"
    "http_parse_host_char s_http_host_v6_end c = (if c = CHR '':'' then s_http_host_port_start else s_http_host_dead)"
    by (simp_all add: http_parse_host_char_def)
  show ?thesis
  proof (cases s)
    case s_http_host_start
    then show ?thesis
      using host_chars by (auto simp: http_parse_host_char_def part_simps)
  next
    case s_http_host
    then show ?thesis
      using host_chars by (auto simp: http_parse_host_char_def run_then_steps)
  next
    case s_http_userinfo
    then show ?thesis
      using host_chars by (auto simp: http_parse_host_char_def run_then_steps)
  next
    case s_http_userinfo_start
    then show ?thesis
      using host_chars by (auto simp: http_parse_host_char_def run_then_steps)
  qed (use assms address_chars in \<open>auto simp: plain v6_moves run_then_steps part_simps combinator_simps\<close>)
qed

lemma port_moves:
  "http_parse_host_char s_http_host_port c = (if is_dec c then s_http_host_port else s_http_host_dead)"
  "http_parse_host_char s_http_host_port_start c = (if is_dec c then s_http_host_port else s_http_host_dead)"
  by (simp_all add: http_parse_host_char_def IS_NUM_iff)

lemma port_stays: "foldl http_parse_host_char s_http_host_port x \<in> {s_http_host_port, s_http_host_dead}"
  by (induction x) (auto simp: port_moves host.foldl_dead)

text \<open>With digits as ports the automaton ends well exactly on the language of its state.\<close>

definition host_accepts :: "http_host_state \<Rightarrow> string \<Rightarrow> bool" where
  "host_accepts s x \<longleftrightarrow>
     foldl http_parse_host_char s x \<in> {s_http_host, s_http_host_v6_end, s_http_host_port}"

lemma host_accepts_lang: "host_accepts s x = host_lang digits s x"
proof (induction x arbitrary: s)
  case Nil
  then show ?case
    by (cases s) (simp_all add: host_accepts_def combinator_simps digits_def part_simps)
next
  case (Cons c x)
  have step: "host_accepts s (c # x) = host_accepts (http_parse_host_char s c) x"
    by (simp add: host_accepts_def)
  show ?case
  proof (cases "s \<in> {s_http_host_port_start, s_http_host_port}")
    case True
    then show ?thesis
      unfolding step Cons.IH by (cases "is_dec c") (auto simp: port_moves digits_def)
  next
    case False
    then show ?thesis
      unfolding step Cons.IH by (intro host_lang_step [symmetric]) simp_all
  qed
qed

lemma host_lang_run:
  assumes "foldl http_parse_host_char s x \<notin> {s_http_host_port_start, s_http_host_port, s_http_host_dead}"
  shows "host_lang D s (x @ z) = host_lang D (foldl http_parse_host_char s x) z"
  using assms
proof (induction x arbitrary: s)
  case (Cons c x)
  then have "s \<noteq> s_http_host_port_start" "s \<noteq> s_http_host_port"
    using port_stays [of x] port_moves [of c] host.foldl_dead [of x] by (auto split: if_splits)
  then show ?case
    using Cons host_lang_step [of s D c "x @ z"] by simp
qed simp

section \<open>The URL automaton\<close>

lemma url_chars:
  "\<not> IS_URL_CHAR CHR ''?''" "\<not> IS_URL_CHAR CHR ''#''" "\<not> query_char CHR ''#''" "IS_URL_CHAR CHR ''/''"
  by (simp_all add: query_char_def IS_URL_CHAR_iff less_char_def)

lemma query_text_step: "query_text (c # cs) = (if query_char c then query_text cs else c = CHR ''#'' \<and> fragment_text cs)"
  unfolding query_text_def using url_chars by (subst run_then_Cons; force simp: combinator_simps)

lemma path_text_step:
  "path_text (c # cs) = (if IS_URL_CHAR c then path_text cs
     else c = CHR ''?'' \<and> query_text cs \<or> c = CHR ''#'' \<and> fragment_text cs)"
  unfolding path_text_def using url_chars by (subst run_then_Cons; force simp: combinator_simps)

lemma tail_steps:
  "fragment_text (c # cs) = (fragment_char c \<and> fragment_text cs)"
  "query_text []" "path_text []" "fragment_text []"
  by (simp_all add: query_text_def path_text_def fragment_text_def run_then_Nil combinator_simps)

fun tail_lang :: "url_state \<Rightarrow> string \<Rightarrow> bool" where
  "tail_lang s_req_path x = path_text x"
| "tail_lang s_req_query_string_start x = query_text x"
| "tail_lang s_req_query_string x = query_text x"
| "tail_lang s_req_fragment_start x = fragment_text x"
| "tail_lang s_req_fragment x = fragment_text x"
| "tail_lang s x = False"

definition tail_states :: "url_state set" where
  "tail_states = {s_req_path, s_req_query_string_start, s_req_query_string, s_req_fragment_start, s_req_fragment}"

lemma tail_state_moves:
  "parse_url_char s_req_path c = (if IS_URL_CHAR c then s_req_path
     else if c = CHR ''?'' then s_req_query_string_start else if c = CHR ''#'' then s_req_fragment_start else s_dead)"
  "s \<in> {s_req_query_string_start, s_req_query_string} \<Longrightarrow> parse_url_char s c = (if query_char c then s_req_query_string
     else if c = CHR ''#'' then s_req_fragment_start else s_dead)"
  "s \<in> {s_req_fragment_start, s_req_fragment} \<Longrightarrow> parse_url_char s c = (if fragment_char c
     then (if c = CHR ''#'' then s else s_req_fragment) else s_dead)"
proof -
  have blank: "c = CHR '' '' \<or> c = CHR 0x0D \<or> c = CHR 0x0A \<Longrightarrow> \<not> IS_URL_CHAR c \<and> c \<noteq> CHR ''?'' \<and> c \<noteq> CHR ''#''"
    using class_facts(6) by auto
  show "parse_url_char s_req_path c = (if IS_URL_CHAR c then s_req_path
     else if c = CHR ''?'' then s_req_query_string_start else if c = CHR ''#'' then s_req_fragment_start else s_dead)"
    using blank by (simp add: parse_url_char_def)
  show "s \<in> {s_req_query_string_start, s_req_query_string} \<Longrightarrow> parse_url_char s c = (if query_char c then s_req_query_string
     else if c = CHR ''#'' then s_req_fragment_start else s_dead)"
    using blank by (elim insertE emptyE) (simp_all add: parse_url_char_def query_char_def)
  show "s \<in> {s_req_fragment_start, s_req_fragment} \<Longrightarrow> parse_url_char s c = (if fragment_char c
     then (if c = CHR ''#'' then s else s_req_fragment) else s_dead)"
    using blank url_chars by (elim insertE emptyE) (simp_all add: parse_url_char_def fragment_char_def)
qed

lemma tail_state_step:
  assumes "s \<in> tail_states"
  shows "tail_lang s (c # cs) = tail_lang (parse_url_char s c) cs"
    and "parse_url_char s c \<in> insert s_dead tail_states"
  using assms
  by (auto simp: tail_states_def tail_state_moves tail_steps query_text_step path_text_step split: if_splits)

lemma tail_accepts:
  assumes "s \<in> tail_states"
  shows "foldl parse_url_char s x \<noteq> s_dead \<longleftrightarrow> tail_lang s x"
  using assms
proof (induction x arbitrary: s)
  case Nil
  then show ?case
    by (auto simp: tail_states_def tail_steps)
next
  case (Cons c x)
  then show ?case
    using tail_state_step [OF Cons.prems, of c] by (auto simp: url.foldl_dead)
qed

text \<open>The server part, from the slashes to the target.\<close>

definition server_char :: "char \<Rightarrow> bool" where
  "server_char c \<longleftrightarrow> IS_USERINFO_CHAR c \<or> c \<in> {CHR ''@'', CHR ''['', CHR '']''}"

definition server_states :: "url_state set" where
  "server_states = {s_req_server_start, s_req_server, s_req_server_with_at}"

lemma server_state_moves:
  assumes "s \<in> server_states"
  shows "parse_url_char s c =
    (if c = CHR ''@'' then (if s = s_req_server_with_at then s_dead else s_req_server_with_at)
     else if server_char c then s_req_server
     else if c = CHR ''/'' then s_req_path else if c = CHR ''?'' then s_req_query_string_start else s_dead)"
proof -
  have plain: "parse_url_char s c =
      (if c = CHR '' '' \<or> c = CHR 0x0D \<or> c = CHR 0x0A then s_dead
       else if s = s_req_server_with_at \<and> c = CHR ''@'' then s_dead else parse_url_server c)"
  proof -
    have "s = s_req_server_start \<or> s = s_req_server \<or> s = s_req_server_with_at"
      using assms by (simp add: server_states_def)
    then show ?thesis
      by (elim disjE) (simp_all add: parse_url_char_def)
  qed
  show ?thesis
  proof (cases "IS_USERINFO_CHAR c")
    case True
    then show ?thesis
      using userinfo_neq [OF True] by (simp add: plain server_char_def parse_url_server_def)
  next
    case False
    then show ?thesis
      by (simp add: plain server_char_def parse_url_server_def)
  qed
qed

lemma server_run:
  "s \<in> server_states \<Longrightarrow> list_all server_char x \<Longrightarrow> foldl parse_url_char s x \<in> insert s_dead server_states"
proof (induction x arbitrary: s)
  case (Cons c x)
  then have "parse_url_char s c \<in> insert s_dead server_states"
    using server_state_moves [of s c] by (auto simp: server_states_def)
  then show ?case
    using Cons url.foldl_dead by auto
qed simp

lemma target_accepts:
  assumes "s \<in> server_states" and "x = [] \<or> \<not> server_char (hd x)"
  shows "foldl parse_url_char s x \<noteq> s_dead \<longleftrightarrow> target_text x"
proof (cases x)
  case Nil
  then show ?thesis
    using assms(1) by (auto simp: server_states_def target_text_def combinator_simps)
next
  case (Cons c cs)
  then have "\<not> server_char c" "c \<noteq> CHR ''@''"
    using assms(2) by (auto simp: server_char_def)
  then have "parse_url_char s c =
      (if c = CHR ''/'' then s_req_path else if c = CHR ''?'' then s_req_query_string_start else s_dead)"
    using server_state_moves [OF assms(1)] by simp
  then show ?thesis
    using tail_accepts [of s_req_path cs] tail_accepts [of s_req_query_string_start cs]
    by (auto simp: Cons target_text_def combinator_simps url.foldl_dead tail_states_def split: if_splits)
qed

text \<open>What the host automaton accepts the URL automaton lets pass.\<close>

lemma host_classes:
  "address_char c \<Longrightarrow> IS_USERINFO_CHAR c" "zone_char c \<Longrightarrow> IS_USERINFO_CHAR c"
proof -
  have "IS_HEX c \<Longrightarrow> IS_ALPHANUM c"
    by (auto simp: IS_HEX_def IS_ALPHANUM_def IS_ALPHA_def byte_of_char_def intro: order_trans)
  then show "address_char c \<Longrightarrow> IS_USERINFO_CHAR c" "zone_char c \<Longrightarrow> IS_USERINFO_CHAR c"
    by (auto simp: address_char_def zone_char_def IS_USERINFO_CHAR_def IS_MARK_def)
qed

lemma host_delimiters: "IS_USERINFO_CHAR CHR '':''" "IS_USERINFO_CHAR CHR ''%''"
  by (simp_all add: IS_USERINFO_CHAR_def)

lemma host_state_moves:
  "http_parse_host_char s_http_host_dead c = s_http_host_dead"
  "http_parse_host_char s_http_userinfo_start c =
     (if c = CHR ''@'' then s_http_host_start else if IS_USERINFO_CHAR c then s_http_userinfo else s_http_host_dead)"
  "http_parse_host_char s_http_userinfo c =
     (if c = CHR ''@'' then s_http_host_start else if IS_USERINFO_CHAR c then s_http_userinfo else s_http_host_dead)"
  "http_parse_host_char s_http_host_start c =
     (if c = CHR ''['' then s_http_host_v6_start else if IS_HOST_CHAR c then s_http_host else s_http_host_dead)"
  "http_parse_host_char s_http_host c =
     (if IS_HOST_CHAR c then s_http_host else if c = CHR '':'' then s_http_host_port_start else s_http_host_dead)"
  "http_parse_host_char s_http_host_v6_end c = (if c = CHR '':'' then s_http_host_port_start else s_http_host_dead)"
  by (simp_all add: http_parse_host_char_def)

lemma server_chars_of_host:
  assumes "http_parse_host_char h c \<noteq> s_http_host_dead"
  shows "c = CHR ''@'' \<and> h \<in> {s_http_userinfo_start, s_http_userinfo} \<and>
      http_parse_host_char h c = s_http_host_start \<or> c \<noteq> CHR ''@'' \<and> server_char c"
proof -
  have "c = CHR ''@'' \<Longrightarrow> \<not> IS_USERINFO_CHAR c"
    using host_chars by blast
  moreover have "IS_USERINFO_CHAR c \<or> c \<in> {CHR ''['', CHR '']''} \<or>
      c = CHR ''@'' \<and> h \<in> {s_http_userinfo_start, s_http_userinfo}"
    using assms host_classes [of c] host_delimiters class_facts(1,3) [of c]
    by (cases h) (simp_all add: host_state_moves v6_moves port_moves split: if_splits)
  ultimately show ?thesis
    by (auto simp: server_char_def host_state_moves)
qed

lemma host_in_server:
  assumes "foldl http_parse_host_char h x \<noteq> s_http_host_dead" and "s \<in> server_states"
    and "h \<in> {s_http_userinfo_start, s_http_userinfo} \<longrightarrow> s \<noteq> s_req_server_with_at"
  shows "foldl parse_url_char s x \<noteq> s_dead \<and> list_all server_char x"
  using assms
proof (induction x arbitrary: h s)
  case Nil
  then show ?case
    by (auto simp: server_states_def)
next
  case (Cons c x)
  let ?h = "http_parse_host_char h c" and ?s = "parse_url_char s c"
  have alive: "?h \<noteq> s_http_host_dead"
    using Cons.prems(1) host.foldl_dead [of x] by auto
  from server_chars_of_host [OF alive] have "?s \<in> server_states \<and> server_char c \<and>
      (?h \<in> {s_http_userinfo_start, s_http_userinfo} \<longrightarrow> ?s \<noteq> s_req_server_with_at)"
  proof (elim disjE conjE)
    assume "c = CHR ''@''" and "h \<in> {s_http_userinfo_start, s_http_userinfo}" and "?h = s_http_host_start"
    then show ?thesis
      using server_state_moves [OF Cons.prems(2), of c] Cons.prems(3)
      by (simp add: server_states_def server_char_def)
  next
    assume "c \<noteq> CHR ''@''" and "server_char c"
    then show ?thesis
      using server_state_moves [OF Cons.prems(2), of c] by (simp add: server_states_def)
  qed
  then show ?case
    using Cons.IH [of ?h ?s] Cons.prems(1) by simp
qed

section \<open>Where the loops find the server and the port\<close>

lemma host_loop_append:
  "foldl http_parse_host_char s x \<noteq> s_http_host_dead \<Longrightarrow>
     host_loop s i (x @ y) u = host_loop (foldl http_parse_host_char s x) (i + length x) y (fst (host_loop s i x u))"
proof (induction x arbitrary: s i u)
  case (Cons c x)
  then have "http_parse_host_char s c \<noteq> s_http_host_dead"
    using host.foldl_dead by auto
  then show ?case
    using Cons by (simp add: Let_def)
qed simp

lemma host_loop_no_port:
  "foldl http_parse_host_char s x \<notin> {s_http_host_port, s_http_host_dead} \<Longrightarrow>
     has_field (fst (host_loop s i x u)) UF_PORT = has_field u UF_PORT"
proof (induction x arbitrary: s i u)
  case (Cons c x)
  let ?s = "http_parse_host_char s c"
  have "?s \<noteq> s_http_host_dead" "?s \<noteq> s_http_host_port"
    using Cons.prems host.foldl_dead [of x] port_stays [of x] by auto
  moreover have "has_field (host_account s ?s i u) UF_PORT = has_field u UF_PORT"
    using calculation by (cases ?s) (simp_all add: host_account_def)
  ultimately show ?case
    using Cons by (simp add: Let_def)
qed simp

lemma port_start_entry:
  assumes "http_parse_host_char s c = s_http_host_port_start"
  shows "c = CHR '':''" and "s \<in> {s_http_host, s_http_host_v6_end}"
  using assms by (cases s; simp add: host_state_moves v6_moves port_moves split: if_splits)+

text \<open>A run that ends in the port has read a colon and digits behind a complete host.\<close>

lemma port_entry:
  assumes "foldl http_parse_host_char s x = s_http_host_port" and "s \<noteq> s_http_host_port" "s \<noteq> s_http_host_port_start"
  shows "\<exists>pre y. x = pre @ CHR '':'' # y \<and> digits y \<and>
    foldl http_parse_host_char s pre \<in> {s_http_host, s_http_host_v6_end}"
  using assms(1)
proof (induction x rule: rev_induct)
  case (snoc c x)
  let ?r = "foldl http_parse_host_char s x"
  have r: "http_parse_host_char ?r c = s_http_host_port"
    using snoc.prems by simp
  then have dec: "is_dec c" "?r = s_http_host_port_start \<or> ?r = s_http_host_port"
    using host_predecessor(5) [OF r] by (auto simp: port_moves split: if_splits)
  from dec(2) show ?case
  proof
    assume "?r = s_http_host_port"
    then obtain pre y where "x = pre @ CHR '':'' # y" "digits y"
        "foldl http_parse_host_char s pre \<in> {s_http_host, s_http_host_v6_end}"
      using snoc.IH by blast
    then show ?thesis
      using dec(1) by (intro exI [of _ pre] exI [of _ "y @ [c]"]) (simp add: digits_def)
  next
    assume start: "?r = s_http_host_port_start"
    then obtain d pre where x: "x = pre @ [d]"
      using assms(3) by (cases x rule: rev_cases) simp_all
    then have "http_parse_host_char (foldl http_parse_host_char s pre) d = s_http_host_port_start"
      using start by simp
    from port_start_entry [OF this] show ?thesis
      using dec(1) x by (intro exI [of _ pre] exI [of _ "[c]"]) (simp add: digits_def)
  qed
qed (use assms(2) in simp)

lemma host_loop_digits:
  assumes "s \<in> {s_http_host, s_http_host_v6_end}" and "digits y"
  shows "host_loop s i (CHR '':'' # y) u = (set_field UF_PORT (Suc i) (length y) u, s_http_host_port)"
proof -
  have "http_parse_host_char s CHR '':'' = s_http_host_port_start"
    using assms(1) host_chars(1) by (auto simp: host_state_moves)
  moreover have "host_loop s_http_host (i) (mark_text CHR '':'' (Some y)) u =
      (set_field UF_PORT (Suc i) (length y) u, s_http_host_port)"
    using host_loop_port [of "Some y" i u] assms(2) by (simp add: digits_def opt_field_def)
  ultimately show ?thesis
    by (simp add: host_moves Let_def host_account_def)
qed

text \<open>The state in which the host automaton starts, and the language of the grammar.\<close>

definition host_start :: "string \<Rightarrow> http_host_state" where
  "host_start x = (if CHR ''@'' \<in> set x then s_http_userinfo_start else s_http_host_start)"

lemma no_at:
  "foldl http_parse_host_char h x \<noteq> s_http_host_dead \<Longrightarrow> h \<notin> {s_http_userinfo_start, s_http_userinfo} \<Longrightarrow>
     CHR ''@'' \<notin> set x"
proof (induction x arbitrary: h)
  case (Cons c x)
  let ?h = "http_parse_host_char h c"
  have "?h \<noteq> s_http_host_dead"
    using Cons.prems(1) host.foldl_dead [of x] by auto
  then have "c \<noteq> CHR ''@''"
    using server_chars_of_host Cons.prems(2) by blast
  moreover have "?h \<notin> {s_http_userinfo_start, s_http_userinfo}"
    using host_predecessor(3,6) [of h c] Cons.prems(2) by blast
  ultimately show ?case
    using Cons.IH [of ?h] Cons.prems(1) by simp
qed simp

lemma host_lang_mono:
  assumes "\<And>y. D y \<Longrightarrow> digits y"
  shows "host_lang D s x \<Longrightarrow> host_lang digits s x"
proof (induction x arbitrary: s)
  case Nil
  then show ?case
    using assms by (cases s) (simp_all add: combinator_simps part_simps)
next
  case (Cons c x)
  show ?case
  proof (cases "s \<in> {s_http_host_port_start, s_http_host_port}")
    case True
    then show ?thesis
      using Cons.prems assms by auto
  next
    case False
    then show ?thesis
      using Cons.IH [of "http_parse_host_char s c"] Cons.prems by (simp add: host_lang_step)
  qed
qed

lemma server_part_lang:
  assumes "\<And>y. D y \<Longrightarrow> digits y"
  shows "server_part D x = host_lang D (host_start x) x"
proof -
  have "CHR ''@'' \<notin> set x" if "host_port D x"
  proof -
    have "host_lang digits s_http_host_start x"
      using host_lang_mono [of D s_http_host_start x] assms that by simp
    then have "host_accepts s_http_host_start x"
      by (simp only: host_accepts_lang)
    then show ?thesis
      by (intro no_at [of s_http_host_start]) (auto simp: host_accepts_def)
  qed
  moreover have "CHR ''@'' \<in> set x" if "run_then IS_USERINFO_CHAR (behind CHR ''@'' (host_port D)) x"
    using that by (auto simp: run_then_def behind_def)
  ultimately show ?thesis
    by (auto simp: server_part_def host_start_def)
qed

text \<open>What the host loop records of the port, and what the bound on it adds to the language.\<close>

lemma server_port:
  assumes "server_part digits x"
  shows "\<exists>pre p. x = pre @ mark_text CHR '':'' p \<and> pred_option digits p \<and>
    server_part port_digits x = pred_option port_digits p \<and>
    (\<forall>i u. \<not> has_field u UF_PORT \<longrightarrow> (let v = fst (host_loop (host_start x) i x u) in
      has_field v UF_PORT = (p \<noteq> None) \<and>
      (p \<noteq> None \<longrightarrow> off (field_data v UF_PORT) = of_nat (i + length pre + 1))))"
proof -
  let ?s = "host_start x"
  have acc: "host_accepts ?s x"
    using assms server_part_lang [of digits x] by (simp add: host_accepts_lang)
  have bounded: "server_part port_digits x = host_lang port_digits ?s x"
    by (rule server_part_lang) (simp add: port_digits_def)
  show ?thesis
  proof (cases "foldl http_parse_host_char ?s x = s_http_host_port")
    case False
    then have t: "foldl http_parse_host_char ?s x \<in> {s_http_host, s_http_host_v6_end}"
      using acc by (simp add: host_accepts_def)
    then have "host_lang port_digits ?s x"
      using host_lang_run [of ?s x port_digits "[]"] by (auto simp: combinator_simps)
    moreover have "has_field (fst (host_loop ?s i x u)) UF_PORT = has_field u UF_PORT" for i u
      using t by (intro host_loop_no_port) auto
    ultimately show ?thesis
      using bounded by (intro exI [of _ x] exI [of _ None]) simp
  next
    case True
    moreover have "?s \<noteq> s_http_host_port" "?s \<noteq> s_http_host_port_start"
      by (simp_all add: host_start_def)
    ultimately obtain pre y where x: "x = pre @ CHR '':'' # y" "digits y"
        "foldl http_parse_host_char ?s pre \<in> {s_http_host, s_http_host_v6_end}"
      using port_entry by blast
    let ?t = "foldl http_parse_host_char ?s pre"
    have alive: "?t \<noteq> s_http_host_dead"
      using x(3) by auto
    have "host_lang port_digits ?s (pre @ CHR '':'' # y) = host_lang port_digits ?t (CHR '':'' # y)"
      using x(3) by (intro host_lang_run) auto
    also have "\<dots> = port_digits y"
      using x(3) host_chars(1) by (auto simp: run_then_steps combinator_simps)
    finally have "server_part port_digits x = port_digits y"
      using bounded x(1) by simp
    moreover have "host_loop ?s i x u =
        (set_field UF_PORT (i + length pre + 1) (length y) (fst (host_loop ?s i pre u)), s_http_host_port)" for i u
      using host_loop_append [OF alive, of i "CHR '':'' # y" u] host_loop_digits [OF x(3,2)] x(1) by simp
    ultimately show ?thesis
      using x(1,2) by (intro exI [of _ pre] exI [of _ "Some y"]) (simp add: set_field_def Let_def)
  qed
qed

lemma http_parse_host_accepts:
  assumes "field_data u UF_HOST = \<lparr>off = of_nat k, len = of_nat (length x)\<rparr>" and "k < 65536" and "length x < 65536"
    and "take (length x) (drop k buf) = x"
  shows "snd (http_parse_host buf u (CHR ''@'' \<in> set x)) = 0 \<longleftrightarrow> server_part digits x"
    and "fst (http_parse_host buf u (CHR ''@'' \<in> set x)) =
      fst (host_loop (host_start x) k x (put_field UF_HOST (of_nat k) 0 u))"
proof -
  have run: "http_parse_host buf u (CHR ''@'' \<in> set x) =
      (case host_loop (host_start x) k x (put_field UF_HOST (of_nat k) 0 u) of
         (u, s) \<Rightarrow> if s = s_http_host_dead then (u, 1) else if host_end_ok s then (u, 0) else (u, 1))"
    using assms by (simp add: http_parse_host_def Let_def unat_of_nat16 host_start_def)
  then show "fst (http_parse_host buf u (CHR ''@'' \<in> set x)) =
      fst (host_loop (host_start x) k x (put_field UF_HOST (of_nat k) 0 u))"
    by (simp split: prod.split)
  have "s \<noteq> s_http_host_dead \<and> host_end_ok s \<longleftrightarrow> s \<in> {s_http_host, s_http_host_v6_end, s_http_host_port}" for s
    by (cases s) (simp_all add: host_end_ok_def)
  then have "snd (http_parse_host buf u (CHR ''@'' \<in> set x)) = 0 \<longleftrightarrow> host_accepts (host_start x) x"
    unfolding run host_accepts_def host_loop_state [symmetric, where i = k and u = "put_field UF_HOST (of_nat k) 0 u"]
    by (simp split: prod.split) blast
  then show "snd (http_parse_host buf u (CHR ''@'' \<in> set x)) = 0 \<longleftrightarrow> server_part digits x"
    using server_part_lang [of digits x] by (simp add: host_accepts_lang)
qed

text \<open>The first loop over a server and what follows it.\<close>

lemma url_loop_target:
  assumes "s \<in> tail_states \<or> (\<forall>c cs. x = c # cs \<longrightarrow> parse_url_char s c \<in> insert s_dead tail_states)"
    and "url_loop s old fa i x u = (v, fb, t)"
  shows "fb = fa \<and> (f \<in> {UF_SCHEMA, UF_HOST, UF_PORT} \<longrightarrow>
    has_field v f = has_field u f \<and> field_data v f = field_data u f)"
  using assms
proof (induction x arbitrary: s old i u)
  case (Cons c x)
  let ?s = "parse_url_char s c"
  have "?s \<in> insert s_dead tail_states"
    using Cons.prems tail_state_step(2) [of s c] by blast
  then consider "?s = s_dead" | "?s \<in> tail_states" "url_action ?s = Skip"
    | g where "?s \<in> tail_states" "url_action ?s = Collect g" "g \<in> {UF_PATH, UF_QUERY, UF_FRAGMENT}"
    by (auto simp: tail_states_def)
  then show ?case
  proof cases
    case 1
    then show ?thesis
      using Cons.prems by (auto simp: Let_def)
  next
    case 2
    then have "url_loop ?s old fa (Suc i) x u = (v, fb, t)"
      using Cons.prems by (auto simp: Let_def tail_states_def)
    then show ?thesis
      using Cons.IH [of ?s old "Suc i" u] 2(1) by blast
  next
    case 3
    let ?u = "if old = Some g then bump_len g u else mark_field g (put_field g (of_nat i) 1 u)"
    have "url_loop ?s (Some g) fa (Suc i) x ?u = (v, fb, t)"
      using 3 Cons.prems by (auto simp: Let_def tail_states_def split: if_splits)
    moreover have "has_field ?u f = has_field u f \<and> field_data ?u f = field_data u f"
      if "f \<in> {UF_SCHEMA, UF_HOST, UF_PORT}"
      using that 3(3) by auto
    ultimately show ?thesis
      using Cons.IH [of ?s "Some g" "Suc i" ?u] 3(1) by auto
  qed
qed simp

lemma url_loop_server_run:
  assumes "s \<in> {s_req_server, s_req_server_with_at}" and "list_all server_char x"
    and "foldl parse_url_char s x \<noteq> s_dead"
  shows "url_loop s (Some UF_HOST) fa i (x @ rest) (set_field UF_HOST j n u) =
    url_loop (foldl parse_url_char s x) (Some UF_HOST) (fa \<or> CHR ''@'' \<in> set x) (i + length x) rest
      (set_field UF_HOST j (n + length x) u)"
  using assms
proof (induction x arbitrary: s fa i n)
  case (Cons c x)
  let ?s = "parse_url_char s c"
  have "?s \<noteq> s_dead"
    using Cons.prems(3) url.foldl_dead [of x] by auto
  then have s: "?s = (if c = CHR ''@'' then s_req_server_with_at else s_req_server)"
    using server_state_moves [of s c] Cons.prems(1,2) by (auto simp: server_states_def split: if_splits)
  have "url_loop s (Some UF_HOST) fa i ((c # x) @ rest) (set_field UF_HOST j n u) =
      url_loop ?s (Some UF_HOST) (fa \<or> CHR ''@'' = c) (Suc i) (x @ rest) (set_field UF_HOST j (Suc n) u)"
    using s by (cases "c = CHR ''@''") (simp_all add: Let_def bump_set_field)
  moreover have "?s \<in> {s_req_server, s_req_server_with_at}"
    by (simp add: s)
  ultimately show ?case
    using Cons.IH [of ?s "fa \<or> CHR ''@'' = c" "Suc i" "Suc n"] Cons.prems by (simp add: disj_assoc)
qed simp

lemma url_loop_server_any:
  assumes "x \<noteq> []" and "list_all server_char x" and "foldl parse_url_char s_req_server_start x \<noteq> s_dead"
  shows "url_loop s_req_server_start (Some UF_SCHEMA) False i (x @ rest) u =
    url_loop (foldl parse_url_char s_req_server_start x) (Some UF_HOST) (CHR ''@'' \<in> set x) (i + length x) rest
      (set_field UF_HOST i (length x) u)"
proof -
  obtain c y where x: "x = c # y"
    using assms(1) by (cases x) auto
  let ?s = "parse_url_char s_req_server_start c"
  have "?s \<noteq> s_dead"
    using assms(3) url.foldl_dead [of y] by (auto simp: x)
  then have s: "?s = (if c = CHR ''@'' then s_req_server_with_at else s_req_server)"
    using server_state_moves [of s_req_server_start c] assms(2) by (auto simp: x server_states_def split: if_splits)
  have "url_loop s_req_server_start (Some UF_SCHEMA) False i (x @ rest) u =
      url_loop ?s (Some UF_HOST) (CHR ''@'' = c) (Suc i) (y @ rest) (set_field UF_HOST i 1 u)"
    using s by (cases "c = CHR ''@''") (simp_all add: x Let_def set_field_def)
  moreover have "?s \<in> {s_req_server, s_req_server_with_at}"
    by (simp add: s)
  ultimately show ?thesis
    using url_loop_server_run [of ?s y "CHR ''@'' = c" "Suc i" rest i 1 u] assms(2,3)
    by (simp add: x)
qed

section \<open>The accepted URLs\<close>

text \<open>The end of the parse of a URL whose server has been found.\<close>

lemma parse_server:
  assumes "has_field v UF_HOST" and "\<not> has_field v UF_PORT"
    and "field_data v UF_HOST = \<lparr>off = of_nat (length pre), len = of_nat (length srv)\<rparr>"
    and "length (pre @ srv @ rest) < 65536" and "rest = [] \<or> \<not> is_dec (hd rest)"
  shows "snd (case http_parse_host (pre @ srv @ rest) v (CHR ''@'' \<in> set srv) of
      (u, rc) \<Rightarrow> if rc \<noteq> 0 then (u, 1) else parse_url_finish (pre @ srv @ rest) False u) = 0 \<longleftrightarrow>
    server_part port_digits srv"
proof -
  let ?url = "pre @ srv @ rest"
  let ?r = "http_parse_host ?url v (CHR ''@'' \<in> set srv)"
  have place: "length pre < 65536" "length srv < 65536" "take (length srv) (drop (length pre) ?url) = srv"
    using assms(4) by simp_all
  note host = http_parse_host_accepts [OF assms(3) place]
  have bounded: "server_part digits srv" if "server_part port_digits srv"
    using that server_part_lang [of port_digits srv] server_part_lang [of digits srv]
      host_lang_mono [of port_digits] by (simp add: port_digits_def)
  show ?thesis
  proof (cases "server_part digits srv")
    case False
    then show ?thesis
      using host(1) bounded by (auto split: prod.split)
  next
    case True
    obtain w where w: "?r = (w, 0)" "w = fst (host_loop (host_start srv) (length pre) srv (put_field UF_HOST (of_nat (length pre)) 0 v))"
      using host True by (metis prod.collapse)
    obtain h p where p: "srv = h @ mark_text CHR '':'' p" "pred_option digits p"
        "server_part port_digits srv = pred_option port_digits p" "has_field w UF_PORT = (p \<noteq> None)"
        "p \<noteq> None \<Longrightarrow> off (field_data w UF_PORT) = of_nat (length pre + length h + 1)"
      using server_port [OF True] assms(2) unfolding w(2) by (fastforce simp: Let_def)
    show ?thesis
    proof (cases p)
      case None
      then show ?thesis
        using p(3,4) w(1) by (simp add: parse_url_finish_def parse_url_port_def)
    next
      case (Some y)
      then have y: "digits y" "drop (length pre + length h + 1) ?url = y @ rest"
        using p(1,2) by simp_all
      have "length pre + length h + 1 < 65536"
        using assms(4) p(1) Some by simp
      then have "unat (of_nat (length pre + length h + 1) :: 16 word) = length pre + length h + 1"
        by (rule unat_of_nat16)
      then have "unat (off (field_data w UF_PORT)) = length pre + length h + 1"
        using p(5) Some by (simp only: option.distinct simp_thms)
      then have "strtoul10 (drop (unat (off (field_data w UF_PORT))) ?url) = min (strtoul_digits (y @ rest)) (2 ^ 64 - 1)"
        using y strtoul10_digit [of "y @ rest"] by (cases y) (simp_all add: digits_def)
      also have "strtoul_digits (y @ rest) = decimal y"
        using y(1) assms(5) takeWhile_append_stop [of y is_dec rest]
        by (auto simp: strtoul_digits_def digits_def list_all_iff)
      finally show ?thesis
        using p(3,4) Some w(1) y(1) by (simp add: parse_url_finish_def parse_url_port_def Let_def port_digits_def)
    qed
  qed
qed

text \<open>The whole parse, by the outcome of its first loop.\<close>

definition cleared :: "http_parser_url \<Rightarrow> http_parser_url" where
  "cleared u = u\<lparr>port := 0, field_set := 0\<rparr>"

lemma cleared_fields [simp]: "has_field (cleared u) f = False"
  by (simp add: cleared_def has_field_def)

lemma parse_outcome:
  assumes "url_loop s_req_spaces_before_url None False 0 buf (cleared u) = (v, fa, t)"
  shows "snd (http_parser_parse_url buf False u) = 0 \<longleftrightarrow> t \<noteq> s_dead \<and>
    (if has_field v UF_HOST
     then snd (case http_parse_host buf v fa of
       (u, rc) \<Rightarrow> if rc \<noteq> 0 then (u, 1) else parse_url_finish buf False u) = 0
     else \<not> has_field v UF_SCHEMA \<and> snd (parse_url_finish buf False v) = 0)"
  using assms by (simp add: http_parser_parse_url_def Let_def cleared_def)

lemma server_part_chars:
  assumes "server_part port_digits x"
  shows "list_all server_char x" and "foldl parse_url_char s_req_server_start x \<noteq> s_dead" and "x \<noteq> []"
proof -
  have "host_lang digits (host_start x) x"
    using assms server_part_lang [of port_digits x] host_lang_mono [of port_digits] by (simp add: port_digits_def)
  then have "host_accepts (host_start x) x"
    by (simp only: host_accepts_lang)
  then have "foldl http_parse_host_char (host_start x) x \<noteq> s_http_host_dead"
    by (auto simp: host_accepts_def)
  then show "list_all server_char x" and "foldl parse_url_char s_req_server_start x \<noteq> s_dead"
    using host_in_server [of "host_start x" x s_req_server_start] by (simp_all add: server_states_def)
  show "x \<noteq> []"
    using assms by (auto simp: server_part_def part_simps combinator_simps)
qed

lemma target_stops: "target_text x \<Longrightarrow> x = [] \<or> hd x \<in> {CHR ''/'', CHR ''?''}"
  by (auto simp: target_text_def optionally_def behind_def)

lemma server_stops: "\<not> server_char CHR ''/''" "\<not> server_char CHR ''?''" "is_dec c \<Longrightarrow> server_char c"
  using userinfo_neq(4) [of "CHR ''/''"] userinfo_neq(5) [of "CHR ''?''"] class_facts(1,3) [of c]
  by (auto simp: server_char_def)

lemma parse_absolute:
  assumes "sch \<noteq> []" and "list_all IS_ALPHA sch" and "list_all server_char srv"
    and "rest = [] \<or> \<not> server_char (hd rest)" and "length (sch @ ''://'' @ srv @ rest) < 65536"
  shows "snd (http_parser_parse_url (sch @ ''://'' @ srv @ rest) False u) = 0 \<longleftrightarrow>
    server_part port_digits srv \<and> target_text rest"
proof -
  let ?url = "sch @ ''://'' @ srv @ rest" and ?i = "length sch + 3"
  let ?u = "set_field UF_SCHEMA 0 (length sch) (cleared u)"
  let ?s = "foldl parse_url_char s_req_server_start srv"
  obtain v fa t where run: "url_loop s_req_spaces_before_url None False 0 ?url (cleared u) = (v, fa, t)"
    by (metis prod.exhaust)
  then have loop: "url_loop s_req_server_start (Some UF_SCHEMA) False ?i (srv @ rest) ?u = (v, fa, t)"
    using url_loop_scheme [OF assms(1,2), of "srv @ rest" "cleared u"] by simp
  have t: "t = foldl parse_url_char ?s rest"
    using url_loop_state [of s_req_server_start "Some UF_SCHEMA" False ?i "srv @ rest" ?u] loop by simp
  note outcome = parse_outcome [OF run]
  have server: "?s \<in> insert s_dead server_states"
    using server_run [of s_req_server_start srv] assms(3) by (simp add: server_states_def)
  have leaves: "parse_url_char s c \<in> insert s_dead tail_states" if "s \<in> server_states" "rest = c # cs" for s c cs
    using that assms(4) server_state_moves [of s c] by (auto simp: tail_states_def server_char_def)
  show ?thesis
  proof (cases "srv = [] \<or> ?s = s_dead")
    case True
    have "t = s_dead \<or> \<not> has_field v UF_HOST \<and> has_field v UF_SCHEMA"
    proof (cases "srv = []")
      case True
      have "\<forall>c cs. rest = c # cs \<longrightarrow> parse_url_char s_req_server_start c \<in> insert s_dead tail_states"
        using leaves [of s_req_server_start] by (simp add: server_states_def)
      note keep = url_loop_target [OF disjI2 [OF this], of "Some UF_SCHEMA" False ?i ?u v fa t]
      then show ?thesis
        using keep [of UF_HOST] keep [of UF_SCHEMA] loop True by (simp add: set_field_def)
    next
      case False
      then show ?thesis
        using True by (simp add: t url.foldl_dead)
    qed
    moreover have "\<not> server_part port_digits srv"
      using True server_part_chars by blast
    ultimately show ?thesis
      using outcome by auto
  next
    case False
    then have alive: "?s \<in> server_states" "t \<noteq> s_dead \<longleftrightarrow> target_text rest"
      using server target_accepts [of ?s rest] assms(4) t by auto
    have rest: "url_loop ?s (Some UF_HOST) (CHR ''@'' \<in> set srv) (?i + length srv) rest
        (set_field UF_HOST ?i (length srv) ?u) = (v, fa, t)"
      using url_loop_server_any [of srv ?i rest ?u] assms(3) False loop by simp
    note keep = url_loop_target [OF _ rest]
    have v: "fa = (CHR ''@'' \<in> set srv)" "has_field v UF_HOST" "\<not> has_field v UF_PORT"
        "field_data v UF_HOST = \<lparr>off = of_nat ?i, len = of_nat (length srv)\<rparr>"
      using keep [of UF_HOST] keep [of UF_PORT] leaves alive(1) by (auto simp: set_field_def)
    have "snd (case http_parse_host ?url v fa of
        (u, rc) \<Rightarrow> if rc \<noteq> 0 then (u, 1) else parse_url_finish ?url False u) = 0 \<longleftrightarrow> server_part port_digits srv"
    proof -
      have whole: "(sch @ ''://'') @ srv @ rest = ?url"
        by simp
      have "field_data v UF_HOST = \<lparr>off = of_nat (length (sch @ ''://'')), len = of_nat (length srv)\<rparr>"
        using v(4) by simp
      moreover have "rest = [] \<or> \<not> is_dec (hd rest)"
        using assms(4) server_stops(3) by blast
      ultimately show ?thesis
        unfolding v(1) using parse_server [of v "sch @ ''://''" srv rest, unfolded whole, OF v(2,3) _ assms(5)] by blast
    qed
    then show ?thesis
      using outcome v(2) alive(2) by auto
  qed
qed

text \<open>URLs without a scheme, and texts that begin like a scheme and go on otherwise.\<close>

lemma parse_relative:
  assumes "c \<in> {CHR ''/'', CHR ''*''}"
  shows "snd (http_parser_parse_url (c # x) False u) = 0 \<longleftrightarrow> path_text x"
proof -
  let ?u = "mark_field UF_PATH (put_field UF_PATH 0 1 (cleared u))"
  obtain v fa t where run: "url_loop s_req_spaces_before_url None False 0 (c # x) (cleared u) = (v, fa, t)"
    by (metis prod.exhaust)
  have "parse_url_char s_req_spaces_before_url c = s_req_path"
    using assms by (auto simp: parse_url_char_def)
  then have loop: "url_loop s_req_path (Some UF_PATH) False 1 x ?u = (v, fa, t)"
    using run by (simp add: Let_def)
  have "s_req_path \<in> tail_states"
    by (simp add: tail_states_def)
  note keep = url_loop_target [OF disjI1 [OF this] loop]
  have "t \<noteq> s_dead \<longleftrightarrow> path_text x"
    using tail_accepts [of s_req_path x] url_loop_state [of s_req_path "Some UF_PATH" False 1 x ?u] loop
    by (simp add: tail_states_def)
  moreover have "\<not> has_field v UF_HOST" "\<not> has_field v UF_SCHEMA" "\<not> has_field v UF_PORT"
    using keep [of UF_HOST] keep [of UF_SCHEMA] keep [of UF_PORT] by simp_all
  ultimately show ?thesis
    using parse_outcome [OF run] by (simp add: parse_url_finish_def parse_url_port_def)
qed

lemma schema_state_moves:
  "parse_url_char s_req_schema c = (if IS_ALPHA c then s_req_schema else if c = CHR '':'' then s_req_schema_slash else s_dead)"
  "parse_url_char s_req_schema_slash c = (if c = CHR ''/'' then s_req_schema_slash_slash else s_dead)"
  "parse_url_char s_req_schema_slash_slash c = (if c = CHR ''/'' then s_req_server_start else s_dead)"
  "parse_url_char s_req_spaces_before_url c = (if c = CHR ''/'' \<or> c = CHR ''*'' then s_req_path
     else if IS_ALPHA c then s_req_schema else s_dead)"
proof -
  have "IS_ALPHA c \<Longrightarrow> c \<noteq> CHR '' '' \<and> c \<noteq> CHR 0x0D \<and> c \<noteq> CHR 0x0A"
    using class_facts(1,4,5) [of c] by (auto simp: delimiter_def)
  then show
    "parse_url_char s_req_schema c = (if IS_ALPHA c then s_req_schema else if c = CHR '':'' then s_req_schema_slash else s_dead)"
    "parse_url_char s_req_schema_slash c = (if c = CHR ''/'' then s_req_schema_slash_slash else s_dead)"
    "parse_url_char s_req_schema_slash_slash c = (if c = CHR ''/'' then s_req_server_start else s_dead)"
    "parse_url_char s_req_spaces_before_url c = (if c = CHR ''/'' \<or> c = CHR ''*'' then s_req_path
     else if IS_ALPHA c then s_req_schema else s_dead)"
    by (simp_all add: parse_url_char_def)
qed

lemma parse_broken_scheme:
  assumes "sch \<noteq> []" and "list_all IS_ALPHA sch" and "rest = [] \<or> \<not> IS_ALPHA (hd rest)"
    and "\<And>y. rest \<noteq> ''://'' @ y"
  shows "snd (http_parser_parse_url (sch @ rest) False u) \<noteq> 0"
proof -
  let ?u = "set_field UF_SCHEMA 0 (length sch) (cleared u)"
  obtain v fa t where run: "url_loop s_req_spaces_before_url None False 0 (sch @ rest) (cleared u) = (v, fa, t)"
    by (metis prod.exhaust)
  have "url_loop s_req_spaces_before_url None False 0 (sch @ rest) (cleared u) =
      url_loop s_req_schema (Some UF_SCHEMA) False (0 + length sch) rest ?u"
    using assms(1,2)
    by (intro url_loop_field) (auto simp: schema_moves list_all_iff hd_in_set dest: list.set_sel(2))
  then have loop: "url_loop s_req_schema (Some UF_SCHEMA) False (length sch) rest ?u = (v, fa, t)"
    using run by simp
  have u: "has_field ?u UF_SCHEMA" "\<not> has_field ?u UF_HOST"
    by (simp_all add: set_field_def)
  have "t = s_dead \<or> v = ?u"
  proof (cases rest)
    case Nil
    then show ?thesis
      using loop by simp
  next
    case (Cons a as)
    then have "\<not> IS_ALPHA a"
      using assms(3) by simp
    show ?thesis
    proof (cases as)
      case Nil
      then show ?thesis
        using loop \<open>\<not> IS_ALPHA a\<close> by (cases "a = CHR '':''") (simp_all add: Cons schema_state_moves)
    next
      case as: (Cons b bs)
      then show ?thesis
      proof (cases bs)
        case Nil
        then show ?thesis
          using loop \<open>\<not> IS_ALPHA a\<close>
          by (cases "a = CHR '':''"; cases "b = CHR ''/''") (simp_all add: Cons as schema_state_moves)
      next
        case bs: (Cons d ds)
        then have "a \<noteq> CHR '':'' \<or> b \<noteq> CHR ''/'' \<or> d \<noteq> CHR ''/''"
          using assms(4) [of ds] by (auto simp: Cons as)
        then show ?thesis
          using loop \<open>\<not> IS_ALPHA a\<close>
          by (cases "a = CHR '':''"; cases "b = CHR ''/''"; cases "d = CHR ''/''")
            (simp_all add: Cons as bs schema_state_moves)
      qed
    qed
  qed
  then show ?thesis
    using parse_outcome [OF run] u by auto
qed

lemma alpha: "\<not> IS_ALPHA CHR '':''" "\<not> IS_ALPHA CHR ''/''" "\<not> IS_ALPHA CHR ''*''"
  by code_simp+

lemma url_text_first:
  assumes "url_text (c # cs)"
  shows "c \<in> {CHR ''/'', CHR ''*''} \<and> path_text cs \<or> IS_ALPHA c"
  using assms
proof cases
  case (url_absolute sch srv x)
  then show ?thesis
    by (cases sch) auto
qed auto

lemma scheme_unique:
  assumes "list_all IS_ALPHA sch" and "list_all IS_ALPHA sch'" and "sch @ rest = sch' @ CHR '':'' # z"
    and "rest = [] \<or> \<not> IS_ALPHA (hd rest)"
  shows "rest = CHR '':'' # z"
proof -
  have "takeWhile IS_ALPHA (sch @ rest) = sch"
    using assms(1,4) by (intro takeWhile_append_stop) (simp_all add: list_all_iff)
  moreover have "takeWhile IS_ALPHA (sch' @ CHR '':'' # z) = sch'"
    using assms(2) alpha(1) by (intro takeWhile_append_stop) (simp_all add: list_all_iff)
  ultimately show ?thesis
    using assms(3) by simp
qed

lemma url_text_absolute:
  assumes "list_all IS_ALPHA sch" and "list_all server_char srv" and "rest = [] \<or> \<not> server_char (hd rest)"
    and "sch \<noteq> []"
  shows "url_text (sch @ ''://'' @ srv @ rest) \<longleftrightarrow> server_part port_digits srv \<and> target_text rest"
proof
  assume "url_text (sch @ ''://'' @ srv @ rest)"
  then show "server_part port_digits srv \<and> target_text rest"
  proof cases
    case (url_relative c x)
    then show ?thesis
      using assms(1,4) alpha by (cases sch) auto
  next
    case (url_absolute sch' srv' x)
    then have "sch @ ''://'' @ srv @ rest = sch' @ CHR '':'' # (''//'' @ srv' @ x)"
      by simp
    then have parts: "srv @ rest = srv' @ x"
      using scheme_unique [OF assms(1) url_absolute(3), of "''://'' @ srv @ rest"] alpha by simp
    have "x = [] \<or> \<not> server_char (hd x)"
      using target_stops [OF url_absolute(5)] server_stops(1,2) by auto
    then have "takeWhile server_char (srv' @ x) = srv'" "takeWhile server_char (srv @ rest) = srv"
      using server_part_chars(1) [OF url_absolute(4)] assms(2,3)
      by (intro takeWhile_append_stop; simp add: list_all_iff)+
    then show ?thesis
      using parts url_absolute(4,5) by simp
  qed (use assms(4) in simp)
qed (use assms(1,4) url_absolute in blast)

text \<open>
  C13: The parser accepts exactly the URLs of the grammar. For every text of less than 65536 characters,
  \<open>http_parser_parse_url\<close> returns 0 if and only if the text is empty, a path with an optional query and
  fragment, or a scheme, a server (with optional user information, a host name or an IPv6 address with an
  optional zone, and an optional port of at most 65535) and an optional path, query and fragment; whatever the record
  held before.
\<close>

theorem parser_accepts_the_grammar:
  assumes "length url < 65536"
  shows "snd (http_parser_parse_url url False u) = 0 \<longleftrightarrow> url_text url"
proof (cases url)
  case Nil
  have "snd (http_parser_parse_url [] False u) = 0"
    by (simp add: http_parser_parse_url_def parse_url_finish_def parse_url_port_def has_field_def)
  then show ?thesis
    using Nil url_empty by simp
next
  case (Cons c cs)
  consider "c \<in> {CHR ''/'', CHR ''*''}" | "IS_ALPHA c" | "c \<notin> {CHR ''/'', CHR ''*''}" "\<not> IS_ALPHA c"
    by blast
  then show ?thesis
  proof cases
    case 1
    have "url_text (c # cs) \<longleftrightarrow> path_text cs"
      using 1 alpha url_text_first [of c cs] url_relative [of c cs] by auto
    then show ?thesis
      using parse_relative [OF 1] Cons by simp
  next
    case 2
    define sch where "sch = takeWhile IS_ALPHA url"
    define rest where "rest = dropWhile IS_ALPHA url"
    have sch: "url = sch @ rest" "sch \<noteq> []" "list_all IS_ALPHA sch" "rest = [] \<or> \<not> IS_ALPHA (hd rest)"
      using 2 Cons hd_dropWhile [of IS_ALPHA url]
      by (auto simp: sch_def rest_def list_all_iff dest: set_takeWhileD simp del: dropWhile.simps takeWhile.simps)
        simp
    show ?thesis
    proof (cases "\<exists>y. rest = ''://'' @ y")
      case True
      then obtain y where y: "rest = ''://'' @ y" ..
      have "list_all server_char (takeWhile server_char y)"
        "dropWhile server_char y = [] \<or> \<not> server_char (hd (dropWhile server_char y))"
        using hd_dropWhile [of server_char y] by (auto simp: list_all_iff dest: set_takeWhileD)
      moreover have "url = sch @ ''://'' @ takeWhile server_char y @ dropWhile server_char y"
        using sch(1) y by simp
      ultimately show ?thesis
        using parse_absolute [OF sch(2,3), of "takeWhile server_char y" "dropWhile server_char y" u]
          url_text_absolute [OF sch(3) _ _ sch(2), of "takeWhile server_char y" "dropWhile server_char y"] assms
        by simp
    next
      case False
      have "\<not> url_text (sch @ rest)"
      proof
        assume "url_text (sch @ rest)"
        then show False
        proof cases
          case (url_relative d x)
          then show ?thesis
            using sch(2,3) alpha by (cases sch) auto
        next
          case (url_absolute sch' srv x)
          then show ?thesis
            using scheme_unique [OF sch(3) url_absolute(3) _ sch(4), of "''//'' @ srv @ x"] False by simp
        qed (use sch(2) in simp)
      qed
      then show ?thesis
        using parse_broken_scheme [OF sch(2-4), of u] False sch(1) by auto
    qed
  next
    case 3
    then have "snd (http_parser_parse_url url False u) \<noteq> 0"
      using Cons by (simp add: http_parser_parse_url_def schema_state_moves Let_def)
    moreover have "\<not> url_text (c # cs)"
      using 3 url_text_first [of c cs] by blast
    ultimately show ?thesis
      using Cons by simp
  qed
qed

text \<open>User information, an address with a zone, the largest port, an empty query.\<close>

theorem parser_accepts_the_grammar_witness:
  "snd (http_parser_parse_url ''http://bob@[fe80::1%eth0]:65535/a?#x'' False zero_url) = 0"
proof -
  have classes: "list_all address_char ''fe80::1''" "list_all zone_char ''eth0''" "list_all IS_USERINFO_CHAR ''bob''"
      "list_all IS_ALPHA ''http''" "list_all IS_URL_CHAR ''ax''"
    by code_simp+
  have "port_digits ''65535''"
    by (simp add: port_digits_def digits_def decimal_def dec_digit_def is_dec_def)
  then have "server_part port_digits ''bob@[fe80::1%eth0]:65535''"
    using classes(1-3) host_chars(3) address_chars
    by (simp add: server_part_def run_then_steps part_simps combinator_simps)
  moreover have "target_text ''/a?#x''"
    using classes(5) url_chars
    by (simp add: target_text_def combinator_simps path_text_step query_text_step tail_steps fragment_char_def)
  ultimately have "url_text (''http'' @ ''://'' @ ''bob@[fe80::1%eth0]:65535'' @ ''/a?#x'')"
    using classes(4) by (intro url_absolute) simp_all
  then show ?thesis
    using parser_accepts_the_grammar [of "''http://bob@[fe80::1%eth0]:65535/a?#x''" zero_url] by simp
qed

end
