(* ===== verification/Url_Main.thy ===== *)
theory Url_Main
  imports Url_Parser
begin

text \<open>
  The command line of the URL parser (\<open>main.cpp\<close> beside \<open>url_parser.cpp\<close>): it parses a fixed URL into an
  uninitialised result and prints the port and four of the components.
\<close>

definition main_url :: string where
  "main_url = ''ws://debug.example.com:123/my/path''"

text \<open>
  \<open>PRINT\<close>: at most \<open>len\<close> characters of the URL from \<open>off\<close> on go through a buffer of 1024 characters, one of
  which is for the terminating NUL.
\<close>

definition PRINT :: "string \<Rightarrow> url_field \<Rightarrow> string \<Rightarrow> http_parser_url \<Rightarrow> fault + string" where
  "PRINT name f url u =
     (let start = unat (off (field_data u f)); buf = take (unat (len (field_data u f))) (drop start url) in
      if length url < start \<or> 1024 < length buf + 1 then Inl BadAccess
      else Inr (name @ '': '' @ buf @ [CHR 0x0A]))"

fun print_all :: "(string \<times> url_field) list \<Rightarrow> string \<Rightarrow> http_parser_url \<Rightarrow> fault + string" where
  "print_all [] url u = Inr []"
| "print_all ((name, f) # fs) url u =
     and_then (PRINT name f url u) (\<lambda>a. and_then (print_all fs url u) (\<lambda>b. Inr (a @ b)))"

definition url_main :: "http_parser_url \<Rightarrow> fault + string" where
  "url_main parse_info =
     (let u = fst (http_parser_parse_url main_url False parse_info) in
      and_then (print_all [(''UF_SCHEMA'', UF_SCHEMA), (''UF_HOST'', UF_HOST), (''UF_PORT'', UF_PORT),
          (''UF_PATH'', UF_PATH)] main_url u)
        (\<lambda>text. Inr (''port: '' @ numeral_of (unat (port u)) @ [CHR 0x0A] @ text)))"

section \<open>What is printed\<close>

lemma PRINT_component:
  assumes "copy_url_component [] u f url = t" and "t \<noteq> []" and "length t < 1024"
  shows "PRINT name f url u = Inr (name @ '': '' @ t @ [CHR 0x0A])"
  using assms by (auto simp: PRINT_def copy_url_component_def Let_def split: if_splits)

definition main_parts :: url_parts where
  "main_parts =
     \<lparr>scheme = ''ws'', userinfo = None, host = ''debug.example.com'', port_text = Some ''123'',
      path = ''/my/path'', query = None, fragment = None\<rparr>"

lemma main_parts_ok: "url_parts_ok main_parts"
  by (simp add: main_parts_def url_parts_ok_def render_url_def path_ok_def query_ok_def fragment_ok_def
      IS_USERINFO_CHAR_def IS_HOST_CHAR_def IS_ALPHANUM_def IS_MARK_def char_simps is_dec_def
      decimal_def dec_digit_def)

lemma main_url_text: "render_url main_parts = main_url"
  by code_simp

text \<open>Whatever the uninitialised result holds, the program prints the components of its URL.\<close>

lemma url_main_prints:
  "url_main parse_info = Inr (
     ''port: 123'' @ [CHR 0x0A] @ ''UF_SCHEMA: ws'' @ [CHR 0x0A] @ ''UF_HOST: debug.example.com'' @ [CHR 0x0A] @
     ''UF_PORT: 123'' @ [CHR 0x0A] @ ''UF_PATH: /my/path'' @ [CHR 0x0A])"
proof -
  obtain u where u: "http_parser_parse_url main_url False parse_info = (u, 0)"
      "parts_of u main_url = main_parts" "unat (port u) = port_number main_parts"
    using http_parser_parse_url_render [OF main_parts_ok, of parse_info] unfolding main_url_text by blast
  then have "copy_url_component [] u UF_SCHEMA main_url = ''ws''"
      "copy_url_component [] u UF_HOST main_url = ''debug.example.com''"
      "copy_url_component [] u UF_PORT main_url = ''123''" "copy_url_component [] u UF_PATH main_url = ''/my/path''"
    by (auto simp: parts_of_def main_parts_def read_field_def split: if_splits)
  moreover have "numeral_of (port_number main_parts) = ''123''"
    by code_simp
  ultimately show ?thesis
    using u by (simp add: url_main_def PRINT_component)
qed

end
