(* ===== verification/Js_Functions.thy ===== *)
theory Js_Functions
  imports Text_Utils
begin

text \<open>
  \<open>jsfunctions.h\<close>: the percent encoding of URI components and the base64 encoding, each with its
  decoder. The table that \<open>decode\<close> obtains from \<open>iconv\<close> is an argument (the 65 code units \<open>iconv\<close>
  writes for \<open>uriCharset\<close>). A floating-point number is a pair of mantissa and exponent: dividing it by a
  power of two is exact (except for quotients too small to be normalised).
\<close>

section \<open>Tables and digits\<close>

definition uriCharset :: string where
  "uriCharset = ''ABCDEFGHIJKLMNOPQRSTUVWXYZabcdefghijklmnopqrstuvwxyz0123456789+/'' @ [CHR 0x00]"

definition getVectorValue :: "byte list \<Rightarrow> nat \<Rightarrow> byte" where
  "getVectorValue array k = (if k < length array then array ! k else 0)"

definition hexToChar :: "byte \<Rightarrow> byte \<times> byte" where
  "hexToChar c =
     (let hex1 = c div 16; hex2 = c mod 16 in
      (hex1 + (if hex1 \<le> 9 then 48 else 97 - 10), hex2 + (if hex2 \<le> 9 then 48 else 97 - 10)))"

text \<open>
  \<open>std::stoi(in, nullptr, 16)\<close>: white space, a sign and a \<open>0x\<close> prefix are skipped, no digit is
  \<open>std::invalid_argument\<close>, a value that does not fit \<open>int\<close> is \<open>std::out_of_range\<close>.
\<close>

definition is_space :: "char \<Rightarrow> bool" where
  "is_space c \<longleftrightarrow> c = CHR '' '' \<or> (CHR 0x09 \<le> c \<and> c \<le> CHR 0x0D)"

definition xdigit :: "char \<Rightarrow> nat option" where
  "xdigit c =
     (if is_dec c then Some (of_char c - 48)
      else if CHR ''A'' \<le> c \<and> c \<le> CHR ''F'' then Some (of_char c - 55)
      else if CHR ''a'' \<le> c \<and> c \<le> CHR ''f'' then Some (of_char c - 87)
      else None)"

definition skip_0x :: "string \<Rightarrow> string" where
  "skip_0x s =
     (case s of
        z # x # d # rest \<Rightarrow>
          (if z = CHR ''0'' \<and> (x = CHR ''x'' \<or> x = CHR ''X'') \<and> xdigit d \<noteq> None then d # rest else s)
      | _ \<Rightarrow> s)"

definition stoi16 :: "string \<Rightarrow> fault + int" where
  "stoi16 s =
     (let s = dropWhile is_space s;
          neg = (s \<noteq> [] \<and> hd s = CHR ''-'');
          s = skip_0x (if s \<noteq> [] \<and> hd s \<in> {CHR ''-'', CHR ''+''} then tl s else s);
          ds = takeWhile (\<lambda>c. xdigit c \<noteq> None) s;
          n = foldl (\<lambda>n c. 16 * n + int (the (xdigit c))) 0 ds;
          v = (if neg then - n else n)
      in if ds = [] then Inl InvalidArgument
         else if v < - (2 ^ 31) \<or> v > 2 ^ 31 - 1 then Inl OutOfRange
         else Inr v)"

definition stringToHex :: "string \<Rightarrow> fault + char" where
  "stringToHex s = and_then (stoi16 s) (\<lambda>v. Inr (char_of_byte (word_of_int v)))"

section \<open>URI components\<close>

definition uri_plain :: "char \<Rightarrow> bool" where
  "uri_plain c \<longleftrightarrow>
     sbetween CHR ''0'' CHR ''9'' c \<or> sbetween CHR ''a'' CHR ''z'' c \<or> sbetween CHR ''A'' CHR ''Z'' c \<or>
     c = CHR ''-'' \<or> c = CHR ''_'' \<or> c = CHR ''.'' \<or> c = CHR ''!'' \<or> c = CHR ''~'' \<or>
     c = CHR ''*'' \<or> c = CHR 0x27 \<or> c = CHR ''('' \<or> c = CHR '')''"

fun encode_loop :: "string \<Rightarrow> string \<Rightarrow> string" where
  "encode_loop [] v = v"
| "encode_loop (c # cs) v =
     (if uri_plain c then encode_loop cs (v @ [c])
      else if c = CHR '' '' then encode_loop cs (v @ ''+'')
      else case hexToChar (byte_of_char c) of
        (d1, d2) \<Rightarrow> encode_loop cs (v @ [CHR ''%'', char_of_byte d1, char_of_byte d2]))"

definition encodeURIComponent :: "string \<Rightarrow> string" where
  "encodeURIComponent s = encode_loop s []"

text \<open>
  The decoder reads the two characters behind a percent sign without looking for the end of the
  string: with one character left it also reads the terminating NUL and then steps past the end,
  with none left it reads past the terminator.
\<close>

fun decode_uri_loop :: "string \<Rightarrow> string \<Rightarrow> fault + string" where
  "decode_uri_loop [] out = Inr out"
| "decode_uri_loop (c # cs) out =
     (if c = CHR ''%'' then
        (case cs of
           [] \<Rightarrow> Inl BadAccess
         | [a] \<Rightarrow> and_then (stringToHex [a, CHR 0x00]) (\<lambda>_. Inl BadAccess)
         | a # b # rest \<Rightarrow> and_then (stringToHex [a, b]) (\<lambda>v. decode_uri_loop rest (out @ [v])))
      else if c = CHR ''+'' then decode_uri_loop cs (out @ '' '')
      else decode_uri_loop cs (out @ [c]))"

definition decodeURIComponent :: "string \<Rightarrow> fault + string" where
  "decodeURIComponent s = decode_uri_loop s []"

section \<open>Base64\<close>

definition uri_char :: "32 word \<Rightarrow> char" where
  "uri_char w = uriCharset ! unat w"

definition base64_group :: "byte list \<Rightarrow> nat \<Rightarrow> string" where
  "base64_group array n =
     (let x = ucast (getVectorValue array n) :: 32 word;
          y = ucast (getVectorValue array (n + 1));
          z = ucast (getVectorValue array (n + 2))
      in [uri_char (drop_bit 2 x),
          uri_char (push_bit 4 (3 AND x) OR drop_bit 4 y),
          uri_char (push_bit 2 (15 AND y) OR drop_bit 6 z),
          uri_char (63 AND z)])"

function base64_loop :: "byte list \<Rightarrow> nat \<Rightarrow> string \<Rightarrow> string" where
  "base64_loop array n out =
     (if n < length array then base64_loop array (n + 3) (out @ base64_group array n) else out)"
  by pat_completeness auto

termination
  by (relation "measure (\<lambda>(array, n, out). length array - n)") auto

declare base64_loop.simps [simp del]

definition encodeFromArray :: "byte list \<Rightarrow> string" where
  "encodeFromArray array =
     (let out = base64_loop array 0 []
      in if length array mod 3 = 2 then take (length out - 1) out @ ''=''
         else if length array mod 3 = 1 then take (length out - 2) out @ ''==''
         else out)"

text \<open>
  \<open>encode\<close>: a hash is split into six bytes, the most significant first. The hash is the finite \<open>double\<close>
  \<open>mantissa * 2 ^ exponent\<close>; \<open>floor_quot k\<close> is \<open>floor(hash / pow(256, k))\<close>, and its cast to \<open>long\<close> is
  undefined where it does not fit.
\<close>

record double =
  mantissa :: int
  exponent :: int

definition floor_quot :: "nat \<Rightarrow> double \<Rightarrow> int" where
  "floor_quot k h =
     (let e = exponent h - 8 * int k in
      if 0 \<le> e then mantissa h * 2 ^ nat e else mantissa h div 2 ^ nat (- e))"

definition encode :: "double \<Rightarrow> fault + string" where
  "encode hash =
     (let rn = map (\<lambda>n. floor_quot (5 - n) hash) [0..<6] in
      if \<forall>v\<in>set rn. - (2 ^ 63) \<le> v \<and> v < 2 ^ 63
      then Inr (encodeFromArray (map (\<lambda>v. word_of_int (255 AND v)) rn)) else Inl BadCast)"

text \<open>\<open>std::array<uint16_t, 256>::at\<close> and \<open>std::vector<uint8_t>::at\<close>, for reading and writing.\<close>

definition table_at :: "16 word list \<Rightarrow> char \<Rightarrow> fault + 16 word" where
  "table_at n c = (if 0 \<le> schar c \<and> nat (schar c) < length n then Inr (n ! nat (schar c)) else Inl OutOfRange)"

definition put_at :: "byte list \<Rightarrow> nat \<Rightarrow> byte \<Rightarrow> fault + byte list" where
  "put_at d l v = (if l < length d then Inr (d[l := v]) else Inl OutOfRange)"

fun index_table :: "16 word list \<Rightarrow> nat \<Rightarrow> 16 word list \<Rightarrow> fault + 16 word list" where
  "index_table n i [] = Inr n"
| "index_table n i (w # ws) =
     (if unat w < length n then index_table (n[unat w := of_nat i]) (Suc i) ws else Inl BadAccess)"

fun base64_decode_loop ::
  "16 word list \<Rightarrow> string \<Rightarrow> nat \<Rightarrow> byte list \<Rightarrow> fault + byte list" where
  "base64_decode_loop n [] l d = Inr d"
| "base64_decode_loop n (c1 # c2 # c3 # c4 # rest) l d =
     and_then (table_at n c1) (\<lambda>i.
     and_then (table_at n c2) (\<lambda>r.
     and_then (table_at n c3) (\<lambda>k.
     and_then (table_at n c4) (\<lambda>a.
       let i = ucast i :: 32 word; r = ucast r; k = ucast k; a = ucast a in
       and_then (put_at d l (ucast (push_bit 2 i OR drop_bit 4 r))) (\<lambda>d.
       and_then (put_at d (l + 1) (ucast (push_bit 4 (15 AND r) OR drop_bit 2 k))) (\<lambda>d.
       and_then (put_at d (l + 2) (ucast (push_bit 6 (3 AND k) OR (63 AND a)))) (\<lambda>d.
         base64_decode_loop n rest (l + 3) d)))))))"
| "base64_decode_loop n _ l d = Inl OutOfRange"

definition base64_trim :: "string \<Rightarrow> byte list \<Rightarrow> fault + byte list" where
  "base64_trim uri d =
     (if uri = [] then Inl BadAccess
      else if last uri = CHR ''='' then
        (if length uri < 2 then Inl BadAccess
         else if uri ! (length uri - 2) = CHR ''='' then
           (if length d < 2 then Inl BadAccess else Inr (take (length d - 2) d))
         else Inr d)
      else Inr d)"

text \<open>\<open>decode\<close>, from the code units \<open>iconv\<close> has written; the first one (a byte-order mark) is erased.\<close>

definition decode :: "16 word list \<Rightarrow> string \<Rightarrow> fault + byte list" where
  "decode utf16 uri =
     and_then (index_table (replicate 256 0) 0 (tl utf16)) (\<lambda>n.
     and_then (base64_decode_loop n uri 0 (replicate (3 * length uri div 4) 0)) (\<lambda>d.
       base64_trim uri d))"

section \<open>A codec\<close>

text \<open>What both encodings promise on the texts they are meant for.\<close>

locale codec =
  fixes enc :: "'a \<Rightarrow> 'b" and dec :: "'b \<Rightarrow> fault + 'a" and good :: "'a \<Rightarrow> bool"
  assumes round_trip: "good a \<Longrightarrow> dec (enc a) = Inr a"
begin

lemma enc_injective: "good a \<Longrightarrow> good b \<Longrightarrow> enc a = enc b \<Longrightarrow> a = b"
  by (metis round_trip sum.inject(2))

lemma dec_enc_no_fault: "good a \<Longrightarrow> dec (enc a) \<noteq> Inl e"
  by (simp add: round_trip)

end

section \<open>URI components, character by character\<close>

definition uri_encode_char :: "char \<Rightarrow> string" where
  "uri_encode_char c =
     (if uri_plain c then [c]
      else if c = CHR '' '' then ''+''
      else case hexToChar (byte_of_char c) of
        (d1, d2) \<Rightarrow> [CHR ''%'', char_of_byte d1, char_of_byte d2])"

lemma encode_loop_append: "encode_loop s v = v @ concat (map uri_encode_char s)"
  by (induction s arbitrary: v) (auto simp: uri_encode_char_def split: prod.split)

lemma encodeURIComponent_concat: "encodeURIComponent s = concat (map uri_encode_char s)"
  by (simp add: encodeURIComponent_def encode_loop_append)

lemma uri_plain_iff [char_simps]:
  "uri_plain c \<longleftrightarrow>
     is_dec c \<or> c \<in> set ''-_.!~*()'' \<or> c = CHR 0x27 \<or>
     (CHR ''A'' \<le> c \<and> c \<le> CHR ''Z'') \<or> (CHR ''a'' \<le> c \<and> c \<le> CHR ''z'')"
  by (auto simp: uri_plain_def sbetween_ascii is_dec_def)

lemma uri_plain_neq: "uri_plain c \<Longrightarrow> c \<noteq> CHR ''%''" "uri_plain c \<Longrightarrow> c \<noteq> CHR ''+''"
    "uri_plain c \<Longrightarrow> c \<noteq> CHR '' ''"
  by (auto simp: uri_plain_def sbetween_ascii)

text \<open>The two digits written for a byte are its hexadecimal numeral for both decoders.\<close>

definition hex_char :: "nat \<Rightarrow> char" where
  "hex_char d = char_of (if d \<le> 9 then d + 48 else d + 87)"

lemma hex_char_facts:
  assumes "d < 16"
  shows "xdigit (hex_char d) = Some d" and "\<not> is_space (hex_char d)"
    and "hex_char d \<noteq> CHR ''-''" and "hex_char d \<noteq> CHR ''+''"
    and "is_hex_digit (hex_char d)" and "hex_to_uint (hex_char d) = of_nat d"
proof -
  have "list_all (\<lambda>d. xdigit (hex_char d) = Some d \<and> \<not> is_space (hex_char d) \<and>
      hex_char d \<noteq> CHR ''-'' \<and> hex_char d \<noteq> CHR ''+'' \<and> is_hex_digit (hex_char d) \<and>
      hex_to_uint (hex_char d) = of_nat d) [0..<16]"
    by code_simp
  then have "\<forall>d<16. xdigit (hex_char d) = Some d \<and> \<not> is_space (hex_char d) \<and>
      hex_char d \<noteq> CHR ''-'' \<and> hex_char d \<noteq> CHR ''+'' \<and> is_hex_digit (hex_char d) \<and>
      hex_to_uint (hex_char d) = of_nat d"
    unfolding list_all_iff set_upt by simp
  then show "xdigit (hex_char d) = Some d" and "\<not> is_space (hex_char d)"
    and "hex_char d \<noteq> CHR ''-''" and "hex_char d \<noteq> CHR ''+''"
    and "is_hex_digit (hex_char d)" and "hex_to_uint (hex_char d) = of_nat d"
    using assms by blast+
qed

lemma hexToChar_hex_char:
  "hexToChar (byte_of_char c) =
     (byte_of_char (hex_char (of_char c div 16)), byte_of_char (hex_char (of_char c mod 16)))"
proof -
  define n where "n = (of_char c :: nat)"
  have n: "n < 256" and b: "byte_of_char c = of_nat n"
    by (simp_all add: n_def byte_of_char_def)
  have small: "unat (of_nat k :: byte) = k" if "k < 256" for k
    using that by (simp add: unat_of_nat take_bit_eq_mod)
  have div16: "(of_nat n :: byte) div 16 = of_nat (n div 16)"
    using n by (intro word_unat_eq_iff [THEN iffD2]) (simp add: unat_div_distrib small)
  have mod16: "(of_nat n :: byte) mod 16 = of_nat (n mod 16)"
    using n by (intro word_unat_eq_iff [THEN iffD2]) (simp add: unat_mod_distrib small)
  have digit: "(of_nat d :: byte) + (if (of_nat d :: byte) \<le> 9 then 48 else 97 - 10) =
      byte_of_char (hex_char d)" if "d < 16" for d
  proof -
    have "(of_nat d :: byte) \<le> 9 \<longleftrightarrow> d \<le> 9"
      using that by (simp add: word_le_nat_alt small)
    then show ?thesis
      using that by (simp add: byte_of_char_def hex_char_def of_char_of)
  qed
  have "hexToChar (of_nat n) =
      (byte_of_char (hex_char (n div 16)), byte_of_char (hex_char (n mod 16)))"
    unfolding hexToChar_def Let_def div16 mod16
    using n by (subst digit, simp, subst digit) simp_all
  then show ?thesis
    by (simp add: b n_def)
qed

lemma stringToHex_hex_chars:
  assumes "d < 16" and "e < 16"
  shows "stringToHex [hex_char d, hex_char e] = Inr (char_of (16 * d + e))"
proof -
  have "stoi16 [hex_char d, hex_char e] = Inr (16 * int d + int e)"
    using assms by (simp add: stoi16_def Let_def skip_0x_def hex_char_facts)
  moreover have "char_of_byte (word_of_int (int (16 * d + e))) = char_of (16 * d + e)"
    using assms
    by (simp only: char_of_byte_def of_int_of_nat_eq unat_of_nat take_bit_eq_mod) simp
  ultimately show ?thesis
    by (simp add: stringToHex_def)
qed

lemma hexToChar_digits:
  "case hexToChar (byte_of_char c) of (d1, d2) \<Rightarrow>
     stringToHex [char_of_byte d1, char_of_byte d2] = Inr c \<and>
     is_hex_digit (char_of_byte d1) \<and> is_hex_digit (char_of_byte d2) \<and>
     char_of (unat (push_bit 4 (hex_to_uint (char_of_byte d1)) + hex_to_uint (char_of_byte d2))) = c"
proof -
  define d where "d = (of_char c div 16 :: nat)"
  define e where "e = (of_char c mod 16 :: nat)"
  have de: "d < 16" "e < 16" "16 * d + e = of_char c"
    by (simp_all add: d_def e_def less_mult_imp_div_less)
  have "push_bit 4 (of_nat d :: 32 word) + of_nat e = of_nat (16 * d + e)"
    by (simp add: push_bit_eq_mult mult.commute)
  moreover have "unat (of_nat (16 * d + e) :: 32 word) = 16 * d + e"
    using de(1,2) by (simp only: unat_of_nat take_bit_eq_mod) simp
  ultimately show ?thesis
    using de stringToHex_hex_chars [of d e]
    by (simp add: hexToChar_hex_char hex_char_facts flip: d_def e_def)
qed

lemma decode_uri_char:
  "decode_uri_loop (uri_encode_char c @ rest) out = decode_uri_loop rest (out @ [c])"
  using hexToChar_digits [of c]
  by (auto simp: uri_encode_char_def uri_plain_neq split: prod.split)

lemma decode_uri_encoded:
  "decode_uri_loop (concat (map uri_encode_char s)) out = Inr (out @ s)"
  by (induction s arbitrary: out) (simp_all add: decode_uri_char)

text \<open>
  C25: Encoding a string as a URI component and decoding it again gives the string back, whatever
  bytes it holds; in particular the decoder never reads outside an encoded string.
\<close>

theorem decodeURIComponent_encode: "decodeURIComponent (encodeURIComponent s) = Inr s"
  by (simp add: decodeURIComponent_def encodeURIComponent_concat decode_uri_encoded)

interpretation uri: codec encodeURIComponent decodeURIComponent "\<lambda>_. True"
  by unfold_locales (simp add: decodeURIComponent_def encodeURIComponent_concat decode_uri_encoded)

lemma percent_decode_char:
  "percent_decode (uri_encode_char c @ rest) =
     (if c = CHR '' '' then CHR ''+'' else c) # percent_decode rest"
  using hexToChar_digits [of c]
  by (auto simp: uri_encode_char_def uri_plain_neq split: prod.split)

text \<open>
  The session's own \<open>percent_decode\<close> inverts \<open>encodeURIComponent\<close> up to spaces: it gives back
  the string with every space replaced by the plus sign the encoder writes for it.
\<close>

theorem percent_decode_encodeURIComponent:
  "percent_decode (encodeURIComponent s) = map (\<lambda>c. if c = CHR '' '' then CHR ''+'' else c) s"
  unfolding encodeURIComponent_concat by (induction s) (simp_all add: percent_decode_char)

text \<open>
  The decoder does not check for the end of the string: a percent sign that is the last
  character makes it read outside the string.
\<close>

theorem decodeURIComponent_truncated:
  "decodeURIComponent (encodeURIComponent s @ ''%'') = Inl BadAccess"
proof -
  have "decode_uri_loop (concat (map uri_encode_char s) @ ''%'') out = Inl BadAccess" for out
    by (induction s arbitrary: out) (simp_all add: decode_uri_char)
  then show ?thesis
    by (simp add: decodeURIComponent_def encodeURIComponent_concat)
qed

end
