(* ===== verification/Base64.thy ===== *)
theory Base64
  imports Js_Functions
begin

text \<open>
  The base64 functions of \<open>jsfunctions.h\<close> against RFC 4648: the encoder equals a recursion over
  groups of three bytes, and the decoder, with the table it builds from what \<open>iconv\<close> answers,
  inverts it except where the padding is a single equals sign.
\<close>

section \<open>Base64 against RFC 4648\<close>

text \<open>The encoding by groups of three bytes, without indices.\<close>

definition sextets :: "byte \<Rightarrow> byte \<Rightarrow> byte \<Rightarrow> nat list" where
  "sextets x y z =
     [unat x div 4, unat x mod 4 * 16 + unat y div 16, unat y mod 16 * 4 + unat z div 64, unat z mod 64]"

definition base64_text :: "nat list \<Rightarrow> string" where
  "base64_text ks = map (\<lambda>k. uriCharset ! k) ks"

fun base64_spec :: "byte list \<Rightarrow> string" where
  "base64_spec (x # y # z # rest) = base64_text (sextets x y z) @ base64_spec rest"
| "base64_spec [x, y] = base64_text (take 3 (sextets x y 0)) @ ''=''"
| "base64_spec [x] = base64_text (take 2 (sextets x 0 0)) @ ''==''"
| "base64_spec [] = []"

lemma or_shift: "b < 2 ^ k \<Longrightarrow> push_bit k a OR b = a * 2 ^ k + (b :: nat)"
proof -
  assume "b < 2 ^ k"
  then have b: "take_bit k b = b"
    by (simp add: take_bit_nat_eq_self)
  have "push_bit k a + take_bit k b = push_bit k a OR take_bit k b"
    by (rule disjunctive_add) (simp add: bit_push_bit_iff bit_take_bit_iff)
  then show ?thesis
    by (simp add: b push_bit_eq_mult)
qed

lemma unat_or_shift:
  fixes a b :: "32 word"
  assumes "unat b < 2 ^ k" and "unat a * 2 ^ k + unat b < 2 ^ 32"
  shows "unat (push_bit k a OR b) = unat a * 2 ^ k + unat b"
proof -
  have "unat (push_bit k a) = take_bit 32 (push_bit k (unat a))"
    by (simp add: unsigned_push_bit_eq)
  also have "\<dots> = push_bit k (unat a)"
    using assms(2) by (intro take_bit_nat_eq_self) (simp add: push_bit_eq_mult)
  finally show ?thesis
    unfolding unsigned_or_eq using or_shift [OF assms(1)] by simp
qed

lemma unat_byte_ucast: "unat (ucast (x :: byte) :: 32 word) = unat x"
  by (simp add: unsigned_ucast_eq take_bit_nat_eq_self less_trans [OF unat_byte_less])

lemma unat_and_mask: "unat (mask k AND (w :: 32 word)) = unat w mod 2 ^ k"
proof -
  have "unat (take_bit k w) = unat w mod 2 ^ k"
    unfolding unsigned_take_bit_eq by (rule take_bit_eq_mod)
  then show ?thesis
    by (simp only: take_bit_eq_mask and.commute)
qed

lemma unat_mask:
  fixes w :: "32 word"
  shows "unat (3 AND w) = unat w mod 4" "unat (15 AND w) = unat w mod 16" "unat (63 AND w) = unat w mod 64"
  using unat_and_mask [of 2 w] unat_and_mask [of 4 w] unat_and_mask [of 6 w]
  by (simp_all add: mask_eq_exp_minus_1)

lemma unat_shift: fixes w :: "32 word" shows "unat (drop_bit k w) = unat w div 2 ^ k"
  unfolding unat_drop_bit_eq by (rule drop_bit_eq_div)

lemma unat_sextets:
  fixes x y z :: byte
  shows "unat (drop_bit 2 (ucast x :: 32 word)) = unat x div 4"
    and "unat (push_bit 4 (3 AND ucast x :: 32 word) OR drop_bit 4 (ucast y)) =
      unat x mod 4 * 16 + unat y div 16"
    and "unat (push_bit 2 (15 AND ucast y :: 32 word) OR drop_bit 6 (ucast z)) =
      unat y mod 16 * 4 + unat z div 64"
    and "unat (63 AND ucast z :: 32 word) = unat z mod 64"
proof -
  have small: "unat y div 16 < 16" "unat z div 64 < 4" "unat x mod 4 < 4" "unat y mod 16 < 16"
    by (simp_all add: less_mult_imp_div_less)
  show "unat (push_bit 4 (3 AND ucast x :: 32 word) OR drop_bit 4 (ucast y)) =
      unat x mod 4 * 16 + unat y div 16"
    using small by (subst unat_or_shift) (simp_all only: unat_mask unat_shift unat_byte_ucast, simp_all)
  show "unat (push_bit 2 (15 AND ucast y :: 32 word) OR drop_bit 6 (ucast z)) =
      unat y mod 16 * 4 + unat z div 64"
    using small by (subst unat_or_shift) (simp_all only: unat_mask unat_shift unat_byte_ucast, simp_all)
qed (simp_all only: unat_shift unat_mask unat_byte_ucast, simp_all)

lemma ucast_sextets:
  fixes i r k a :: "32 word"
  assumes "unat i < 64" and "unat r < 64" and "unat k < 64" and "unat a < 64"
  shows "ucast (push_bit 2 i OR drop_bit 4 r) = (of_nat (unat i * 4 + unat r div 16) :: byte)"
    and "ucast (push_bit 4 (15 AND r) OR drop_bit 2 k) = (of_nat (unat r mod 16 * 16 + unat k div 4) :: byte)"
    and "ucast (push_bit 6 (3 AND k) OR (63 AND a)) = (of_nat (unat k mod 4 * 64 + unat a) :: byte)"
proof -
  have ucast_nat: "(ucast w :: byte) = of_nat (unat w)" for w :: "32 word"
    by (simp add: unsigned_of_nat)
  have small: "unat r div 16 < 4" "unat k div 4 < 16" "unat r mod 16 < 16" "unat k mod 4 < 4"
    using assms by (simp_all add: less_mult_imp_div_less)
  show "ucast (push_bit 2 i OR drop_bit 4 r) = (of_nat (unat i * 4 + unat r div 16) :: byte)"
    unfolding ucast_nat using small assms
    by (subst unat_or_shift) (simp_all only: unat_mask unat_shift, simp_all)
  show "ucast (push_bit 4 (15 AND r) OR drop_bit 2 k) = (of_nat (unat r mod 16 * 16 + unat k div 4) :: byte)"
    unfolding ucast_nat using small assms
    by (subst unat_or_shift) (simp_all only: unat_mask unat_shift, simp_all)
  show "ucast (push_bit 6 (3 AND k) OR (63 AND a)) = (of_nat (unat k mod 4 * 64 + unat a) :: byte)"
    unfolding ucast_nat using small assms
    by (subst unat_or_shift) (simp_all only: unat_mask unat_shift, simp_all)
qed

lemma base64_group_sextets:
  "base64_group array n =
     base64_text (sextets (getVectorValue array n) (getVectorValue array (n + 1)) (getVectorValue array (n + 2)))"
  by (simp only: base64_group_def Let_def base64_text_def sextets_def uri_char_def unat_sextets list.map)

fun base64_padded :: "byte list \<Rightarrow> string" where
  "base64_padded (x # y # z # rest) = base64_text (sextets x y z) @ base64_padded rest"
| "base64_padded [x, y] = base64_text (sextets x y 0)"
| "base64_padded [x] = base64_text (sextets x 0 0)"
| "base64_padded [] = []"

lemma getVectorValue_drop:
  "getVectorValue array (n + k) = getVectorValue (drop n array) k"
  by (auto simp: getVectorValue_def)

lemma base64_group_drop: "base64_group array n = base64_group (drop n array) 0"
  unfolding base64_group_def Let_def getVectorValue_drop [symmetric] by simp

lemma base64_padded_step:
  "xs \<noteq> [] \<Longrightarrow> base64_padded xs = base64_group xs 0 @ base64_padded (drop 3 xs)"
  by (induction xs rule: base64_padded.induct)
     (simp_all add: base64_group_sextets getVectorValue_def)

lemma base64_loop_padded: "base64_loop array n out = out @ base64_padded (drop n array)"
proof (induction array n out rule: base64_loop.induct)
  case (1 array n out)
  show ?case
  proof (cases "n < length array")
    case True
    then have "base64_padded (drop n array) = base64_group array n @ base64_padded (drop (n + 3) array)"
      using base64_padded_step [of "drop n array"] by (simp add: base64_group_drop [of array n] add.commute)
    then show ?thesis
      using 1 True by (subst base64_loop.simps) simp
  next
    case False
    then show ?thesis
      by (subst base64_loop.simps) simp
  qed
qed

lemma length_base64_padded: "length (base64_padded xs) = 4 * ((length xs + 2) div 3)"
  by (induction xs rule: base64_padded.induct) (simp_all add: base64_text_def sextets_def, presburger)

lemma take_behind:
  "k \<le> length p \<Longrightarrow> take (length (pre @ p) - k) (pre @ p) = pre @ take (length p - k) p"
  by simp

lemma base64_spec_padded:
  "base64_spec xs =
     (if length xs mod 3 = 2 then take (length (base64_padded xs) - 1) (base64_padded xs) @ ''=''
      else if length xs mod 3 = 1 then take (length (base64_padded xs) - 2) (base64_padded xs) @ ''==''
      else base64_padded xs)"
proof (induction xs rule: base64_spec.induct)
  case (1 x y z rest)
  have "Suc (Suc (Suc (length rest))) mod 3 = length rest mod 3"
    by presburger
  moreover have "length rest mod 3 \<noteq> 0 \<Longrightarrow> 2 \<le> length (base64_padded rest)"
    unfolding length_base64_padded by (cases rest) auto
  moreover from this have "length rest mod 3 \<noteq> 0 \<Longrightarrow> 1 \<le> length (base64_padded rest)"
    by simp
  ultimately show ?case
    using 1 take_behind [of 1 "base64_padded rest" "base64_text (sextets x y z)"]
      take_behind [of 2 "base64_padded rest" "base64_text (sextets x y z)"]
    by (simp del: take_append length_append)
qed (simp_all add: base64_text_def sextets_def)

text \<open>
  C22: The index-driven encoder computes the base64 encoding of RFC 4648: three bytes give four
  characters of the alphabet, a rest of one or two bytes is completed with zero bits and padded with
  two or one equals signs.
\<close>

theorem encodeFromArray_base64: "encodeFromArray array = base64_spec array"
  by (simp add: encodeFromArray_def base64_loop_padded base64_spec_padded Let_def)

section \<open>Decoding base64\<close>

text \<open>
  What \<open>iconv\<close> writes for \<open>uriCharset\<close> into a buffer of 65 code units: the byte-order mark and one
  unit for each of the first 64 characters (the terminating NUL no longer fits).
\<close>

definition utf16_units :: "16 word list" where
  "utf16_units = 0xFEFF # map (\<lambda>c. of_nat (of_char c)) (take 64 uriCharset)"

definition pad3 :: "byte list \<Rightarrow> byte list" where
  "pad3 xs = xs @ replicate ((3 - length xs mod 3) mod 3) 0"

text \<open>The table \<open>decode\<close> builds inverts the alphabet, and reads the equals sign as zero.\<close>

definition inverts_alphabet :: "16 word list \<Rightarrow> bool" where
  "inverts_alphabet n \<longleftrightarrow>
     list_all (\<lambda>k. table_at n (uriCharset ! k) = Inr (of_nat k)) [0..<64] \<and>
     table_at n CHR ''='' = Inr 0"

lemma index_table_units:
  "\<exists>n. index_table (replicate 256 0) 0 (tl utf16_units) = Inr n \<and> inverts_alphabet n"
proof -
  have "case index_table (replicate 256 0) 0 (tl utf16_units) of Inl _ \<Rightarrow> False | Inr n \<Rightarrow> inverts_alphabet n"
    by code_simp
  then show ?thesis
    by (auto split: sum.splits)
qed

lemma inverts_alphabetD:
  assumes "inverts_alphabet n"
  shows "k < 64 \<Longrightarrow> table_at n (uriCharset ! k) = Inr (of_nat k)" and "table_at n CHR ''='' = Inr 0"
  using assms by (auto simp: inverts_alphabet_def list_all_iff)

lemma sextet_bounds:
  "unat (x :: byte) div 4 < 64" "unat x mod 4 * 16 + unat (y :: byte) div 16 < 64"
  "unat y mod 16 * 4 + unat (z :: byte) div 64 < 64" "unat z mod 64 < 64"
proof -
  have "unat y div 16 < 16" "unat z div 64 < 4" "unat x mod 4 < 4" "unat y mod 16 < 16"
    by (simp_all add: less_mult_imp_div_less)
  then show "unat x mod 4 * 16 + unat y div 16 < 64" "unat y mod 16 * 4 + unat z div 64 < 64"
    by simp_all
qed (simp_all add: less_mult_imp_div_less)

lemma sextets_bytes:
  fixes x y z :: byte
  shows "unat x div 4 * 4 + (unat x mod 4 * 16 + unat y div 16) div 16 = unat x"
    and "(unat x mod 4 * 16 + unat y div 16) mod 16 * 16 + (unat y mod 16 * 4 + unat z div 64) div 4 = unat y"
    and "(unat y mod 16 * 4 + unat z div 64) mod 4 * 64 + unat z mod 64 = unat z"
proof -
  have small: "unat y div 16 < 16" "unat z div 64 < 4"
    by (simp_all add: less_mult_imp_div_less)
  then show "unat x div 4 * 4 + (unat x mod 4 * 16 + unat y div 16) div 16 = unat x"
    by (simp add: div_add1_eq)
  show "(unat x mod 4 * 16 + unat y div 16) mod 16 * 16 + (unat y mod 16 * 4 + unat z div 64) div 4 = unat y"
    using small by (simp add: mod_add_eq [symmetric] div_add1_eq)
  show "(unat y mod 16 * 4 + unat z div 64) mod 4 * 64 + unat z mod 64 = unat z"
    using small by simp
qed

text \<open>One group of four characters whose table entries are the sextets of three bytes.\<close>

lemma base64_decode_group:
  assumes "table_at n c1 = Inr (of_nat (unat x div 4))"
    and "table_at n c2 = Inr (of_nat (unat x mod 4 * 16 + unat y div 16))"
    and "table_at n c3 = Inr (of_nat (unat y mod 16 * 4 + unat z div 64))"
    and "table_at n c4 = Inr (of_nat (unat z mod 64))"
  shows "base64_decode_loop n (c1 # c2 # c3 # c4 # rest) (length pre)
      (pre @ replicate (Suc (Suc (Suc m))) 0) =
    base64_decode_loop n rest (length (pre @ [x, y, z])) ((pre @ [x, y, z]) @ replicate m 0)"
proof -
  have wide: "unat (ucast (of_nat k :: 16 word) :: 32 word) = k" if "k < 64" for k
    using that by (simp add: unsigned_ucast_eq unat_of_nat take_bit_eq_mod)
  note b = sextet_bounds(1) [of x] sextet_bounds(2) [of x y] sextet_bounds(3) [of y z] sextet_bounds(4) [of z]
  let ?w = "\<lambda>k. ucast (of_nat k :: 16 word) :: 32 word"
  let ?i = "?w (unat x div 4)" and ?r = "?w (unat x mod 4 * 16 + unat y div 16)"
  let ?k = "?w (unat y mod 16 * 4 + unat z div 64)" and ?a = "?w (unat z mod 64)"
  have "ucast (push_bit 2 ?i OR drop_bit 4 ?r) = x"
    "ucast (push_bit 4 (15 AND ?r) OR drop_bit 2 ?k) = y"
    "ucast (push_bit 6 (3 AND ?k) OR (63 AND ?a)) = z"
    using ucast_sextets [of ?i ?r ?k ?a] b unfolding wide [OF b(1)] wide [OF b(2)] wide [OF b(3)]
      wide [OF b(4)] sextets_bytes by simp_all
  then show ?thesis
    by (simp add: assms Let_def put_at_def list_update_append numeral_3_eq_3 del: of_nat_add of_nat_mult)
qed

lemma mod3_Suc: "Suc (Suc (Suc n)) mod 3 = n mod 3"
  by presburger

lemma replicate_2: "replicate 2 x = [x, x]"
  by (simp add: numeral_2_eq_2)

lemma pad3_simps:
  "pad3 (x # y # z # rest) = x # y # z # pad3 rest" "pad3 [x, y] = [x, y, 0]" "pad3 [x] = [x, 0, 0]"
  "pad3 [] = []"
  by (simp_all add: pad3_def mod3_Suc replicate_2)

lemma take_sextets:
  "take 3 (sextets x y z) =
     [unat x div 4, unat x mod 4 * 16 + unat y div 16, unat y mod 16 * 4 + unat z div 64]"
  "take 2 (sextets x y z) = [unat x div 4, unat x mod 4 * 16 + unat y div 16]"
  by (simp_all add: sextets_def)

lemma padded_size: "3 * ((length [x, y] + 2) div 3) = Suc (Suc (Suc 0))"
    "3 * ((length [x] + 2) div 3) = Suc (Suc (Suc 0))"
  by simp_all

lemma base64_decode_spec:
  assumes "inverts_alphabet n"
  shows "base64_decode_loop n (base64_spec xs) (length pre)
      (pre @ replicate (3 * ((length xs + 2) div 3)) 0) = Inr (pre @ pad3 xs)"
proof (induction xs arbitrary: pre rule: base64_spec.induct)
  case (1 x y z rest)
  note at = inverts_alphabetD(1) [OF assms sextet_bounds(1) [of x]]
    inverts_alphabetD(1) [OF assms sextet_bounds(2) [of x y]]
    inverts_alphabetD(1) [OF assms sextet_bounds(3) [of y z]]
    inverts_alphabetD(1) [OF assms sextet_bounds(4) [of z]]
  have size: "3 * ((length (x # y # z # rest) + 2) div 3) =
      Suc (Suc (Suc (3 * ((length rest + 2) div 3))))"
    using div_add_self1 [of 3 "length rest + 2"] by (simp add: numeral_3_eq_3 [symmetric])
  show ?case
    unfolding size base64_spec.simps base64_text_def sextets_def list.map append.simps
      base64_decode_group [OF at] 1
    by (simp add: pad3_simps)
next
  case (2 x y)
  note at = inverts_alphabetD(1) [OF assms sextet_bounds(1) [of x]]
    inverts_alphabetD(1) [OF assms sextet_bounds(2) [of x y]]
    inverts_alphabetD(1) [OF assms sextet_bounds(3) [of y 0]]
  have "table_at n CHR ''='' = Inr (of_nat (unat (0 :: byte) mod 64))"
    using inverts_alphabetD(2) [OF assms] by simp
  from base64_decode_group [OF at this, of "[]" pre 0] show ?case
    unfolding padded_size base64_spec.simps take_sextets base64_text_def list.map append.simps pad3_simps
    by simp
next
  case (3 x)
  note at = inverts_alphabetD(1) [OF assms sextet_bounds(1) [of x]]
    inverts_alphabetD(1) [OF assms sextet_bounds(2) [of x 0]]
  have "table_at n CHR ''='' = Inr (of_nat (unat (0 :: byte) mod 16 * 4 + unat (0 :: byte) div 64))"
    and "table_at n CHR ''='' = Inr (of_nat (unat (0 :: byte) mod 64))"
    using inverts_alphabetD(2) [OF assms] by simp_all
  from base64_decode_group [OF at this, of "[]" pre 0] show ?case
    unfolding padded_size base64_spec.simps take_sextets base64_text_def list.map append.simps pad3_simps
    by simp
next
  case 4
  show ?case by (simp add: pad3_simps)
qed

lemma length_base64_spec: "length (base64_spec xs) = 4 * ((length xs + 2) div 3)"
  by (induction xs rule: base64_spec.induct) (simp_all add: base64_text_def sextets_def, presburger)

lemma alphabet_no_equals: "k < 64 \<Longrightarrow> uriCharset ! k \<noteq> CHR ''=''"
proof -
  have "list_all (\<lambda>k. uriCharset ! k \<noteq> CHR ''='') [0..<64]"
    by code_simp
  then show "k < 64 \<Longrightarrow> ?thesis"
    by (auto simp: list_all_iff)
qed

text \<open>How an encoding ends.\<close>

lemma base64_spec_end:
  "xs \<noteq> [] \<Longrightarrow> \<exists>s k. k < 64 \<and> base64_spec xs = s @
     (if length xs mod 3 = 0 then [uriCharset ! k]
      else if length xs mod 3 = 2 then [uriCharset ! k, CHR ''='']
      else ''=='')"
proof (induction xs rule: base64_spec.induct)
  case (1 x y z rest)
  show ?case
  proof (cases "rest = []")
    case True
    then show ?thesis
      using sextet_bounds(4) [of z] by (auto simp: base64_text_def sextets_def intro!: exI [of _ "unat z mod 64"])
  next
    case False
    then obtain s k where "k < 64" and "base64_spec rest = s @
        (if length rest mod 3 = 0 then [uriCharset ! k]
         else if length rest mod 3 = 2 then [uriCharset ! k, CHR ''=''] else ''=='')"
      using 1 by blast
    then show ?thesis
      by (intro exI [of _ "base64_text (sextets x y z) @ s"] exI [of _ k]) (simp add: mod3_Suc)
  qed
next
  case (2 x y)
  show ?case
    using sextet_bounds(3) [of y 0]
    by (intro exI [of _ "base64_text [unat x div 4, unat x mod 4 * 16 + unat y div 16]"]
        exI [of _ "unat y mod 16 * 4 + unat (0 :: byte) div 64"])
      (simp add: base64_text_def take_sextets)
next
  case (3 x)
  show ?case
    by (intro exI [of _ "base64_text (take 2 (sextets x 0 0))"] exI [of _ 0]) simp
qed simp

lemma base64_trim_spec:
  assumes "xs \<noteq> []"
  shows "base64_trim (base64_spec xs) (pad3 xs) = Inr (if length xs mod 3 = 2 then xs @ [0] else xs)"
proof -
  obtain s k where k: "k < 64" and s: "base64_spec xs = s @
      (if length xs mod 3 = 0 then [uriCharset ! k]
       else if length xs mod 3 = 2 then [uriCharset ! k, CHR ''='']
       else ''=='')"
    using base64_spec_end [OF assms] by blast
  consider "length xs mod 3 = 0" | "length xs mod 3 = 1" | "length xs mod 3 = 2"
    by linarith
  then show ?thesis
    by cases (simp_all add: s base64_trim_def alphabet_no_equals [OF k] pad3_def nth_append numeral_2_eq_2)
qed

lemma decode_encodeFromArray:
  assumes "utf16 = utf16_units" and "xs \<noteq> []"
  shows "decode utf16 (encodeFromArray xs) = Inr (if length xs mod 3 = 2 then xs @ [0] else xs)"
proof -
  obtain n where n: "index_table (replicate 256 0) 0 (tl utf16_units) = Inr n" "inverts_alphabet n"
    using index_table_units by blast
  have enc: "encodeFromArray xs = base64_spec xs"
    by (simp add: encodeFromArray_def base64_loop_padded base64_spec_padded Let_def)
  have "3 * length (base64_spec xs) div 4 = 3 * ((length xs + 2) div 3)"
    by (simp add: length_base64_spec)
  then show ?thesis
    using base64_decode_spec [OF n(2), of xs "[]"] base64_trim_spec [OF assms(2)]
    by (simp add: decode_def assms(1) n(1) enc)
qed

text \<open>
  C19: Decoding what \<open>encodeFromArray\<close> wrote gives the bytes back, with one exception: when the
  number of bytes leaves a rest of two (a single equals sign at the end) the decoder appends a zero
  byte, because it only removes the padding of two equals signs.
\<close>

theorem base64_decode_encode:
  assumes "utf16 = utf16_units" and "xs \<noteq> []"
  shows "decode utf16 (encodeFromArray xs) = Inr (if length xs mod 3 = 2 then xs @ [0] else xs)"
  using assms by (rule decode_encodeFromArray)

theorem base64_decode_encode_witness:
  "decode utf16_units (encodeFromArray [77]) = Inr [77] \<and>
   decode utf16_units (encodeFromArray [77, 97]) = Inr [77, 97, 0]"
  using base64_decode_encode [OF refl, of "[77]"] base64_decode_encode [OF refl, of "[77, 97]"] by simp

interpretation base64: codec encodeFromArray "decode utf16_units" "\<lambda>xs. xs \<noteq> [] \<and> length xs mod 3 \<noteq> 2"
  by unfold_locales (simp add: decode_encodeFromArray)

end
