(* ===== verification/Hash_Text.thy ===== *)
theory Hash_Text
  imports Base64
begin

text \<open>\<open>encode\<close> of \<open>jsfunctions.h\<close>, which writes a hash as the base64 text of its six bytes.\<close>

section \<open>Hashes\<close>

lemma foldl_digits:
  fixes q :: "nat \<Rightarrow> int"
  assumes "\<And>k. 256 * q (Suc k) + q k mod 256 = q k" and "q 5 mod 256 = q 5"
  shows "foldl (\<lambda>n k. 256 * n + q k mod 256) 0 [5, 4, 3, 2, 1, 0] = q 0"
proof -
  have "256 * q 5 + q 4 mod 256 = q 4" "256 * q 4 + q 3 mod 256 = q 3" "256 * q 3 + q 2 mod 256 = q 2"
      "256 * q 2 + q 1 mod 256 = q 1" "256 * q 1 + q 0 mod 256 = q 0"
    using assms(1) [of 4] assms(1) [of 3] assms(1) [of 2] assms(1) [of 1] assms(1) [of 0]
    by (simp_all only: Suc_numeral One_nat_def [symmetric] Suc_1 semiring_norm)
  then show ?thesis
    using assms(2) by (simp only: foldl.simps mult_zero_right add_0_left)
qed

lemma digits_256:
  assumes "0 \<le> h" and "h < (2 :: int) ^ 48"
  shows "foldl (\<lambda>n k. 256 * n + h div 256 ^ k mod 256) 0 [5, 4, 3, 2, 1, 0] = h"
proof -
  define q where "q k = h div 256 ^ k" for k
  have "q (Suc k) = q k div 256" for k
    unfolding q_def power_Suc2 by (rule zdiv_zmult2_eq) simp
  then have step: "256 * q (Suc k) + q k mod 256 = q k" for k
    by (simp only: mult_div_mod_eq)
  have "h div 256 ^ 5 < 256"
    using assms(2) by simp
  moreover have "0 \<le> h div 256 ^ 5"
    using assms(1) by (simp add: pos_imp_zdiv_nonneg_iff)
  ultimately have "q 5 mod 256 = q 5"
    unfolding q_def by (intro mod_pos_pos_trivial)
  from foldl_digits [of q, OF step this] show ?thesis
    by (simp add: q_def)
qed

text \<open>Rounding down once more does not matter.\<close>

lemma floor_quot_div: "floor_quot k h = floor_quot 0 h div 256 ^ k"
proof -
  let ?m = "mantissa h" and ?e = "exponent h"
  have pow: "(256 :: int) ^ k = 2 ^ (8 * k)"
    by (simp add: power_mult)
  consider "8 * int k \<le> ?e" | "0 \<le> ?e" "?e < 8 * int k" | "?e < 0"
    by linarith
  then show ?thesis
  proof cases
    case 1
    then have "nat ?e = nat (?e - 8 * int k) + 8 * k"
      by linarith
    then have "(2 :: int) ^ nat ?e = 2 ^ nat (?e - 8 * int k) * 2 ^ (8 * k)"
      by (metis power_add)
    then show ?thesis
      using 1 by (simp add: floor_quot_def pow)
  next
    case 2
    then have "8 * k = nat ?e + nat (8 * int k - ?e)"
      by linarith
    then have "(2 :: int) ^ (8 * k) = 2 ^ nat ?e * 2 ^ nat (8 * int k - ?e)"
      by (metis power_add)
    then show ?thesis
      using 2 by (simp add: floor_quot_def pow mult.commute)
  next
    case 3
    then have "nat (8 * int k - ?e) = nat (- ?e) + 8 * k"
      by linarith
    then show ?thesis
      using 3 by (simp add: floor_quot_def pow power_add zdiv_zmult2_eq)
  qed
qed

text \<open>
  C20: A hash is recovered from its encoding: whenever its integral part is from 0 to 2^48 - 1, \<open>encode\<close>
  succeeds, and decoding the text gives the six bytes of the integral part, the most significant first.
  (A larger hash loses the bits above the 48th.)
\<close>

theorem encoded_hash_is_recovered:
  assumes "0 \<le> floor_quot 0 h" and "floor_quot 0 h < 2 ^ 48"
  shows "\<exists>bs. and_then (encode h) (decode utf16_units) = Inr bs \<and> length bs = 6 \<and>
    foldl (\<lambda>n b. 256 * n + uint b) 0 bs = floor_quot 0 h"
proof -
  define q where "q = floor_quot 0 h"
  define f where "f k = q div 256 ^ k" for k
  let ?bs = "map (\<lambda>n. word_of_int (255 AND f (5 - n)) :: byte) [0..<6]"
  have f: "floor_quot k h = f k" for k
    unfolding f_def q_def by (rule floor_quot_div)
  have range: "- (2 ^ 63) \<le> f k" "f k < 2 ^ 63" for k
  proof -
    have "f k \<le> q div 1"
      using assms(1) unfolding f_def by (intro zdiv_mono2) (simp_all add: q_def)
    moreover have "0 \<le> f k"
      using assms(1) by (simp add: f_def pos_imp_zdiv_nonneg_iff q_def)
    ultimately show "- (2 ^ 63) \<le> f k" "f k < 2 ^ 63"
      using assms(2) by (simp_all add: q_def)
  qed
  then have enc: "encode h = Inr (encodeFromArray ?bs)"
    unfolding encode_def f Let_def by (simp add: comp_def)
  have dec: "decode utf16_units (encodeFromArray ?bs) = Inr ?bs"
    by (subst decode_encodeFromArray) simp_all
  have "255 AND v = take_bit 8 v" for v :: int
    by (simp add: take_bit_eq_mask and.commute mask_eq_exp_minus_1)
  then have "uint (word_of_int (255 AND v) :: byte) = v mod 256" for v
    by (simp add: unsigned_of_int take_bit_eq_mod)
  then have "foldl (\<lambda>n b. 256 * n + uint b) 0 ?bs =
      foldl (\<lambda>n k. 256 * n + f k mod 256) 0 [5, 4, 3, 2, 1, 0]"
    by (simp add: upt_rec)
  also have "\<dots> = floor_quot 0 h"
    using digits_256 [of q] assms unfolding f_def q_def by blast
  finally show ?thesis
    unfolding enc using dec by (intro exI [of _ ?bs]) simp
qed

theorem encoded_hash_is_recovered_witness:
  "\<exists>bs. and_then (encode \<lparr>mantissa = 2000001, exponent = -1\<rparr>) (decode utf16_units) = Inr bs \<and> length bs = 6 \<and>
     foldl (\<lambda>n b. 256 * n + uint b) 0 bs = floor_quot 0 \<lparr>mantissa = 2000001, exponent = -1\<rparr>"
  by (rule encoded_hash_is_recovered) (simp_all add: floor_quot_def)

end
