(* ===== verification/Http_Messages.thy ===== *)
theory Http_Messages
  imports Text_Utils
begin

text \<open>
  The values a request and its answer are made of: \<open>HeaderValue\<close> and \<open>Header\<close> (a
  \<open>std::multimap\<close> from names to values, \<open>httpheader.cpp\<close>), \<open>Request\<close> (\<open>httprequest.cpp\<close>) and
  \<open>Response\<close> (\<open>httpresponse.cpp\<close>).

  The multimap is the sequence its iterators visit: the entries in the order of their names
  (\<open>std::string\<close> compares bytes, which is the lexicographic order of \<open>List_Lexorder\<close>) and, among
  equal names, in the order they were added. Getters that cache what they computed return the
  updated object. Allocation failure is not modelled.
\<close>

section \<open>Header fields\<close>

record header_value =
  hv_value :: string
  sensitive :: bool

type_synonym fields = "(string \<times> header_value) list"

fun emplace :: "string \<Rightarrow> header_value \<Rightarrow> fields \<Rightarrow> fields" where
  "emplace name v [] = [(name, v)]"
| "emplace name v ((k, w) # fs) =
     (if name < k then (name, v) # (k, w) # fs else (k, w) # emplace name v fs)"

definition header_size :: "fields \<Rightarrow> nat" where
  "header_size fs = length fs"

text \<open>What \<open>std::find_if\<close> on the entries finds: the first entry that satisfies a test.\<close>

definition find_field :: "string \<Rightarrow> fields \<Rightarrow> (string \<times> header_value) option" where
  "find_field name fs = find (\<lambda>p. fst p = name) fs"

definition field_values :: "string \<Rightarrow> fields \<Rightarrow> header_value list" where
  "field_values name fs = map snd (filter (\<lambda>p. fst p = name) fs)"

definition fields_sorted :: "fields \<Rightarrow> bool" where
  "fields_sorted fs = sorted (map fst fs)"

section \<open>The contract of an ordered multimap\<close>

text \<open>
  What the sessions rely on: every value stays under its name, behind the values added before it.
\<close>

locale ordered_multimap =
  fixes emp :: 'm
    and put :: "'k \<Rightarrow> 'v \<Rightarrow> 'm \<Rightarrow> 'm"
    and vals :: "'k \<Rightarrow> 'm \<Rightarrow> 'v list"
    and inv :: "'m \<Rightarrow> bool"
  assumes emp_inv: "inv emp"
    and put_inv: "inv m \<Longrightarrow> inv (put k v m)"
    and vals_emp: "vals k emp = []"
    and vals_put: "inv m \<Longrightarrow> vals k' (put k v m) = vals k' m @ (if k = k' then [v] else [])"
begin

definition put_all :: "('k \<times> 'v) list \<Rightarrow> 'm \<Rightarrow> 'm" where
  "put_all kvs m = fold (\<lambda>(k, v). put k v) kvs m"

lemma put_all_inv: "inv m \<Longrightarrow> inv (put_all kvs m)"
  unfolding put_all_def by (induction kvs arbitrary: m) (auto intro: put_inv)

lemma vals_put_all:
  "inv m \<Longrightarrow> vals k (put_all kvs m) = vals k m @ map snd (filter (\<lambda>p. fst p = k) kvs)"
  unfolding put_all_def
  by (induction kvs arbitrary: m) (auto simp: vals_put put_inv)

lemma vals_built: "vals k (put_all kvs emp) = map snd (filter (\<lambda>p. fst p = k) kvs)"
  by (simp add: vals_put_all emp_inv vals_emp)

end

lemma set_emplace: "set (emplace name v fs) = insert (name, v) (set fs)"
  by (induction name v fs rule: emplace.induct) auto

lemma fields_sorted_emplace: "fields_sorted fs \<Longrightarrow> fields_sorted (emplace name v fs)"
  unfolding fields_sorted_def
  by (induction name v fs rule: emplace.induct) (auto simp: set_emplace)

lemma field_values_emplace:
  "fields_sorted fs \<Longrightarrow>
     field_values k (emplace name v fs) = field_values k fs @ (if name = k then [v] else [])"
proof (induction name v fs rule: emplace.induct)
  case (1 name v)
  then show ?case by (simp add: field_values_def)
next
  case (2 name v k' w fs)
  have "field_values name ((k', w) # fs) = []" if "name < k'"
    using 2(2) that by (auto simp: field_values_def fields_sorted_def filter_empty_conv)
  then show ?case
    using 2 by (auto simp: field_values_def fields_sorted_def)
qed

interpretation header: ordered_multimap "[]" emplace field_values fields_sorted
proof
  show "fields_sorted []"
    by (simp add: fields_sorted_def)
  show "field_values k [] = []" for k
    by (simp add: field_values_def)
qed (auto intro: fields_sorted_emplace simp: field_values_emplace)

lemma put_all_emplace: "header.put_all kvs fs = fold (\<lambda>(k, v). emplace k v) kvs fs"
  by (simp add: header.put_all_def)

lemma find_field_values:
  "find_field name fs =
     (case field_values name fs of [] \<Rightarrow> None | v # _ \<Rightarrow> Some (name, v))"
proof (induction fs)
  case Nil
  then show ?case by (simp add: find_field_def field_values_def)
next
  case (Cons p fs)
  then show ?case by (cases p) (auto simp: find_field_def field_values_def)
qed

lemma size_emplace: "header_size (emplace name v fs) = Suc (header_size fs)"
  by (induction name v fs rule: emplace.induct) (auto simp: header_size_def)

text \<open>
  C29: Whatever the order in which header fields are added to an empty header, iterating it visits
  them sorted by name, the values of one name in the order they were added, none lost and none
  invented; looking a name up finds the value that was added first.
\<close>

theorem header_multimap:
  "fields_sorted (fold (\<lambda>(k, v). emplace k v) kvs []) \<and>
   field_values name (fold (\<lambda>(k, v). emplace k v) kvs []) =
     map snd (filter (\<lambda>p. fst p = name) kvs) \<and>
   header_size (fold (\<lambda>(k, v). emplace k v) kvs []) = length kvs \<and>
   find_field name (fold (\<lambda>(k, v). emplace k v) kvs []) = find (\<lambda>p. fst p = name) kvs"
proof -
  have sorted: "fields_sorted (fold (\<lambda>(k, v). emplace k v) kvs [])"
    using header.put_all_inv [OF header.emp_inv, of kvs] by (simp add: put_all_emplace)
  have vals: "field_values name (fold (\<lambda>(k, v). emplace k v) kvs []) =
      map snd (filter (\<lambda>p. fst p = name) kvs)"
    using header.vals_built [of name kvs] by (simp add: put_all_emplace)
  have "header_size (fold (\<lambda>(k, v). emplace k v) kvs fs) = length kvs + header_size fs" for fs
    by (induction kvs arbitrary: fs) (auto simp: size_emplace)
  then have size: "header_size (fold (\<lambda>(k, v). emplace k v) kvs []) = length kvs"
    by (simp add: header_size_def)
  have "(case map snd (filter (\<lambda>p. fst p = name) kvs) of [] \<Rightarrow> None | v # _ \<Rightarrow> Some (name, v)) =
      find (\<lambda>p. fst p = name) kvs"
    by (induction kvs) auto
  then show ?thesis
    using sorted vals size by (simp add: find_field_values)
qed

section \<open>Requests\<close>

record request =
  rq_scheme :: string
  rq_host :: string
  rq_method :: string
  rq_header :: fields

definition new_request :: request where
  "new_request = \<lparr>rq_scheme = [], rq_host = [], rq_method = [], rq_header = []\<rparr>"

definition set_scheme :: "string \<Rightarrow> request \<Rightarrow> request" where
  "set_scheme v r = r"

definition set_host :: "string \<Rightarrow> request \<Rightarrow> request" where
  "set_host v r = r"

definition set_method :: "string \<Rightarrow> request \<Rightarrow> request" where
  "set_method v r = r"

definition find_header :: "string \<Rightarrow> request \<Rightarrow> string" where
  "find_header name r =
     (case find_field name (rq_header r) of None \<Rightarrow> [] | Some (_, v) \<Rightarrow> hv_value v)"

definition get_scheme :: "request \<Rightarrow> string \<times> request" where
  "get_scheme r =
     (let r = (if rq_scheme r = [] then r\<lparr>rq_scheme := find_header '':scheme'' r\<rparr> else r) in (rq_scheme r, r))"

definition get_host :: "request \<Rightarrow> string \<times> request" where
  "get_host r =
     (let r = (if rq_host r = [] then r\<lparr>rq_host := find_header ''host'' r\<rparr> else r) in (rq_host r, r))"

definition get_method :: "request \<Rightarrow> string \<times> request" where
  "get_method r =
     (let r = (if rq_method r = [] then r\<lparr>rq_method := find_header '':method'' r\<rparr> else r) in (rq_method r, r))"

definition add_header :: "string \<Rightarrow> header_value \<Rightarrow> request \<Rightarrow> request" where
  "add_header name v r = r\<lparr>rq_header := emplace name v (rq_header r)\<rparr>"

section \<open>Responses\<close>

record response =
  rp_contentLength :: "64 word"
  rp_headerBufferSize :: "64 word"
  rp_statusCode :: int
  rp_header :: fields
  rp_data :: "byte list list"

definition new_response :: response where
  "new_response =
     \<lparr>rp_contentLength = 0, rp_headerBufferSize = 0, rp_statusCode = -1, rp_header = [], rp_data = []\<rparr>"

text \<open>The conversion of an \<open>int64_t\<close> to the \<open>int\<close> parameter keeps the low 32 bits.\<close>

definition set_statusCode :: "int \<Rightarrow> response \<Rightarrow> response" where
  "set_statusCode sc r = r\<lparr>rp_statusCode := signed_take_bit 31 sc\<rparr>"

definition get_statusCode :: "response \<Rightarrow> int" where
  "get_statusCode r = rp_statusCode r"

definition set_contentLength :: "int \<Rightarrow> response \<Rightarrow> response" where
  "set_contentLength n r = r\<lparr>rp_contentLength := word_of_int n\<rparr>"

definition get_contentLength :: "response \<Rightarrow> int \<times> response" where
  "get_contentLength r =
     (let r = (if rp_contentLength r = 0
               then r\<lparr>rp_contentLength := foldl (\<lambda>n chunk. n + of_nat (length chunk)) 0 (rp_data r)\<rparr>
               else r)
      in (sint (rp_contentLength r), r))"

definition updateHeaderBufferSize :: "64 word \<Rightarrow> response \<Rightarrow> response" where
  "updateHeaderBufferSize n r = r\<lparr>rp_headerBufferSize := n\<rparr>"

definition add_data :: "byte list \<Rightarrow> response \<Rightarrow> response" where
  "add_data chunk r = r\<lparr>rp_data := rp_data r @ [chunk]\<rparr>"

definition add_rp_header :: "string \<Rightarrow> header_value \<Rightarrow> response \<Rightarrow> response" where
  "add_rp_header name v r = r\<lparr>rp_header := emplace name v (rp_header r)\<rparr>"

fun occurs_in :: "string \<Rightarrow> string \<Rightarrow> bool" where
  "occurs_in pat [] = (pat = [])"
| "occurs_in pat (c # s) = (take (length pat) (c # s) = pat \<or> occurs_in pat s)"

text \<open>
  \<open>text\<close> reserves the announced length and appends the chunks. A length above \<open>max_size\<close> is refused;
  \<open>alloc n\<close> is whether memory for a string of \<open>n\<close> characters can be had (with what growing it asks for).
\<close>

definition string_max_size :: int where
  "string_max_size = 9223372036854775807"

definition get_text :: "(nat \<Rightarrow> bool) \<Rightarrow> response \<Rightarrow> (fault + string) \<times> response" where
  "get_text alloc r =
     (case find (\<lambda>p. occurs_in ''charset='' (hv_value (snd p))) (rp_header r) of
        Some _ \<Rightarrow>
          (case get_contentLength r of
             (n, r) \<Rightarrow>
               let size = unat (word_of_int n :: 64 word); text = concat (map (map char_of_byte) (rp_data r)) in
               if int size > string_max_size then (Inl LengthError, r)
               else if \<not> alloc size \<or> size < length text \<and> \<not> alloc (length text) then (Inl BadAlloc, r)
               else (Inr text, r))
      | None \<Rightarrow> (Inr [], r))"

definition get_type :: "response \<Rightarrow> string" where
  "get_type r =
     (case find_field ''content-encoding'' (rp_header r) of
        Some (_, v) \<Rightarrow> hv_value v
      | None \<Rightarrow> [])"

fun replace_first :: "string \<Rightarrow> string \<Rightarrow> fields \<Rightarrow> fields" where
  "replace_first name t [] = []"
| "replace_first name t ((k, v) # fs) =
     (if k = name then (k, v\<lparr>hv_value := t\<rparr>) # fs else (k, v) # replace_first name t fs)"

definition set_type :: "string \<Rightarrow> response \<Rightarrow> response \<times> bool" where
  "set_type t r =
     (case find_field ''content-encoding'' (rp_header r) of
        Some _ \<Rightarrow> (r\<lparr>rp_header := replace_first ''content-encoding'' t (rp_header r)\<rparr>, True)
      | None \<Rightarrow> (r, False))"

section \<open>What the caches return\<close>

lemma request_getters:
  "fst (get_scheme (set_scheme v r)) = fst (get_scheme r)"
  "fst (get_host (set_host v r)) = fst (get_host r)"
  "fst (get_method (set_method v r)) = fst (get_method r)"
  by (simp_all add: set_scheme_def set_host_def set_method_def)

text \<open>
  On a request whose header carries the pseudo-header fields, the getters return the first
  value of the field, also when they are called again after further fields were added: a value that
  has been read once is kept.
\<close>

theorem request_getters_cached:
  assumes "rq_scheme r = []" and "find_header '':scheme'' r = s" and "s \<noteq> []"
  shows "get_scheme r = (s, r\<lparr>rq_scheme := s\<rparr>) \<and>
    fst (get_scheme (add_header name v (snd (get_scheme r)))) = s"
  using assms by (simp add: get_scheme_def Let_def add_header_def)

theorem request_getters_cached_witness:
  "(let r = add_header '':scheme'' \<lparr>hv_value = ''https'', sensitive = False\<rparr> new_request in
    get_scheme r = (''https'', r\<lparr>rq_scheme := ''https''\<rparr>) \<and>
    fst (get_scheme (add_header ''a'' \<lparr>hv_value = ''b'', sensitive = True\<rparr> (snd (get_scheme r)))) = ''https'')"
proof -
  let ?r = "add_header '':scheme'' \<lparr>hv_value = ''https'', sensitive = False\<rparr> new_request"
  have "rq_scheme ?r = []" and "find_header '':scheme'' ?r = ''https''"
    by (simp_all add: add_header_def new_request_def find_header_def find_field_def)
  then have "get_scheme ?r = (''https'', ?r\<lparr>rq_scheme := ''https''\<rparr>) \<and>
      fst (get_scheme (add_header ''a'' \<lparr>hv_value = ''b'', sensitive = True\<rparr> (snd (get_scheme ?r)))) = ''https''"
    by (rule request_getters_cached) simp
  then show ?thesis
    unfolding Let_def .
qed

definition body_size :: "response \<Rightarrow> nat" where
  "body_size r = length (concat (rp_data r))"

lemma foldl_chunks:
  "foldl (\<lambda>n chunk. n + of_nat (length chunk)) (of_nat k :: 64 word) cs =
     of_nat (k + length (concat cs))"
  by (induction cs arbitrary: k) (simp_all flip: of_nat_add add: add.assoc)

lemma sint_small: "n < 2 ^ 63 \<Longrightarrow> sint (of_nat n :: 64 word) = int n"
  by (simp add: signed_of_nat signed_take_bit_int_eq_self)

lemma get_contentLength_unset:
  assumes "rp_contentLength r = 0" and "body_size r < 2 ^ 63"
  shows "get_contentLength r = (int (body_size r), r\<lparr>rp_contentLength := of_nat (body_size r)\<rparr>)"
  using assms(1) foldl_chunks [of 0 "rp_data r"] sint_small [OF assms(2)]
  by (simp add: get_contentLength_def Let_def body_size_def)

text \<open>
  Without a Content-Length field the length is the number of bytes received; the first reading
  that is not 0 is kept, so bytes that arrive after it are no longer counted.
\<close>

theorem content_length_is_cached:
  assumes "rp_contentLength r = 0" and "0 < body_size r" and "body_size r < 2 ^ 63"
  shows "fst (get_contentLength r) = int (body_size r) \<and>
    fst (get_contentLength (add_data chunk (snd (get_contentLength r)))) = int (body_size r)"
proof -
  have "unat (of_nat (body_size r) :: 64 word) = body_size r"
    using assms(3) by (simp add: unat_of_nat take_bit_nat_eq_self)
  then have "(of_nat (body_size r) :: 64 word) \<noteq> 0"
    using assms(2) by auto
  then show ?thesis
    unfolding get_contentLength_unset [OF assms(1,3)]
    by (simp add: get_contentLength_def add_data_def sint_small [OF assms(3)])
qed

theorem content_length_is_cached_witness:
  "fst (get_contentLength (add_data [1, 2] new_response)) = 2 \<and>
   fst (get_contentLength (add_data [3] (snd (get_contentLength (add_data [1, 2] new_response))))) = 2"
  using content_length_is_cached [of "add_data [1, 2] new_response" "[3]"]
  by (simp add: add_data_def new_response_def body_size_def)

definition charset_known :: "response \<Rightarrow> bool" where
  "charset_known r \<longleftrightarrow> (\<exists>p\<in>set (rp_header r). occurs_in ''charset='' (hv_value (snd p)))"

lemma charset_known_find:
  "charset_known r \<longleftrightarrow>
     find (\<lambda>p. occurs_in ''charset='' (hv_value (snd p))) (rp_header r) \<noteq> None"
  unfolding charset_known_def find_None_iff by blast

lemma data_after: "rp_data (fold add_data chunks r) = rp_data r @ chunks"
  by (induction chunks arbitrary: r) (auto simp: add_data_def)

lemma frame_after [frame_simps]:
  "rp_header (fold add_data chunks r) = rp_header r"
  "rp_contentLength (fold add_data chunks r) = rp_contentLength r"
  by (induction chunks arbitrary: r) (auto simp: add_data_def)

lemma get_text_known:
  assumes "charset_known r"
  shows "fst (get_text alloc r) =
    (let size = unat (word_of_int (fst (get_contentLength r)) :: 64 word) in
     if 2 ^ 63 - 1 < int size then Inl LengthError
     else if \<not> alloc size \<or> size < body_size r \<and> \<not> alloc (body_size r) then Inl BadAlloc
     else Inr (map char_of_byte (concat (rp_data r))))"
  using assms unfolding charset_known_find body_size_def
  by (auto simp: map_concat [symmetric] get_text_def string_max_size_def get_contentLength_def Let_def split: option.split)

lemma get_text_unknown: "\<not> charset_known r \<Longrightarrow> fst (get_text alloc r) = Inr []"
  unfolding charset_known_find by (auto simp: get_text_def split: option.split)

text \<open>
  C32: Once a header field names a charset, \<open>text\<close> is the concatenation of the chunks in the order
  they arrived, whether a Content-Length was announced or not, provided the announced length is not negative
  and memory for it and for the body can be had; without such a field it is empty.
\<close>

theorem text_is_the_body:
  assumes "rp_data r = []" and "0 \<le> sint (rp_contentLength r)"
    and "length (concat chunks) < 2 ^ 63"
    and "alloc (unat (rp_contentLength r))" and "alloc (length (concat chunks))"
  shows "fst (get_text alloc (fold add_data chunks r)) =
    Inr (if charset_known r then map char_of_byte (concat chunks) else [])"
proof -
  let ?r = "fold add_data chunks r"
  have known: "charset_known ?r = charset_known r"
    by (simp add: charset_known_def frame_simps)
  have size: "body_size ?r = length (concat chunks)"
    using assms(1) by (simp add: body_size_def data_after)
  have len: "unat (word_of_int (fst (get_contentLength ?r)) :: 64 word) =
      (if rp_contentLength r = 0 then length (concat chunks) else unat (rp_contentLength r))"
    using get_contentLength_unset [of ?r] assms(3) size
    by (simp add: frame_simps get_contentLength_def Let_def unat_of_nat take_bit_nat_eq_self)
  have "uint (word_of_int z :: 64 word) = z" if "0 \<le> z" "z < 2 ^ 63" for z
    using that by (simp add: unsigned_of_int take_bit_int_eq_self)
  from this [of "sint (rp_contentLength r)"] have "uint (rp_contentLength r) < 2 ^ 63"
    using assms(2) sint_less [of "rp_contentLength r"] by simp
  then have "unat (rp_contentLength r) < 2 ^ 63"
    using nat_less_iff [of "uint (rp_contentLength r)" "2 ^ 63"] by simp
  then have "int (if rp_contentLength r = 0 then length (concat chunks) else unat (rp_contentLength r)) \<le> 2 ^ 63 - 1"
    using assms(3) by auto
  then show ?thesis
    using get_text_known [of ?r alloc] get_text_unknown [of ?r alloc] assms known
    by (auto simp: len size Let_def data_after)
qed

theorem text_is_the_body_witness:
  "(let r = add_rp_header ''content-type'' \<lparr>hv_value = ''text/html; charset=utf-8'', sensitive = False\<rparr>
        new_response in
    fst (get_text (\<lambda>n. n < 1000) (fold add_data [[104], [105, 33]] r)) = Inr ''hi!'')"
proof -
  let ?r = "add_rp_header ''content-type'' \<lparr>hv_value = ''text/html; charset=utf-8'', sensitive = False\<rparr>
        new_response"
  have "charset_known ?r" and "map char_of_byte (concat [[104], [105, 33]]) = ''hi!''"
    by code_simp+
  moreover have "rp_data ?r = []" and "0 \<le> sint (rp_contentLength ?r)"
    by (simp_all add: add_rp_header_def new_response_def)
  ultimately show ?thesis
    using text_is_the_body [of ?r "[[104], [105, 33]]" "\<lambda>n. n < 1000"]
    by (simp add: Let_def add_rp_header_def new_response_def)
qed



end
