(* ===== verification/Ready_State.thy ===== *)
theory Ready_State
  imports Text_Utils
begin

text \<open>
  \<open>ReadyState\<close> of \<open>xmlhttprequeststate.h\<close>: the states of a request in the order of their codes, which
  is the order \<open>open\<close> compares them in, and their names.
\<close>

datatype ready_state = Unsent | Opened | HeadersReceived | Loading | Done

fun ready_index :: "ready_state \<Rightarrow> nat" where
  "ready_index Unsent = 0"
| "ready_index Opened = 1"
| "ready_index HeadersReceived = 2"
| "ready_index Loading = 3"
| "ready_index Done = 4"

definition ready_code :: "ready_state \<Rightarrow> byte" where
  "ready_code s = of_nat (ready_index s)"

definition ready_of_code :: "byte \<Rightarrow> ready_state option" where
  "ready_of_code b =
     (if b = 0 then Some Unsent else if b = 1 then Some Opened else if b = 2 then Some HeadersReceived
      else if b = 3 then Some Loading else if b = 4 then Some Done else None)"

definition readyStateToString :: "byte \<Rightarrow> string" where
  "readyStateToString state =
     (if state = ready_code Done then ''Done''
      else if state = ready_code HeadersReceived then ''HeadersReceived''
      else if state = ready_code Loading then ''Loading''
      else if state = ready_code Opened then ''Opened''
      else if state = ready_code Unsent then ''Unsent''
      else ''Error while state conversion! Unknown state!'')"

instantiation ready_state :: linorder
begin

definition less_eq_ready_state :: "ready_state \<Rightarrow> ready_state \<Rightarrow> bool" where
  "less_eq_ready_state a b \<longleftrightarrow> ready_index a \<le> ready_index b"

definition less_ready_state :: "ready_state \<Rightarrow> ready_state \<Rightarrow> bool" where
  "less_ready_state a b \<longleftrightarrow> ready_index a < ready_index b"

instance
proof
  fix a b c :: ready_state
  show "a < b \<longleftrightarrow> a \<le> b \<and> \<not> b \<le> a"
    by (auto simp: less_ready_state_def less_eq_ready_state_def)
  show "a \<le> a"
    by (simp add: less_eq_ready_state_def)
  show "a \<le> b \<Longrightarrow> b \<le> c \<Longrightarrow> a \<le> c"
    by (simp add: less_eq_ready_state_def)
  show "a \<le> b \<Longrightarrow> b \<le> a \<Longrightarrow> a = b"
    by (cases a; cases b) (simp_all add: less_eq_ready_state_def)
  show "a \<le> b \<or> b \<le> a"
    by (auto simp: less_eq_ready_state_def)
qed

end

lemma ready_of_code_code [simp]: "ready_of_code (ready_code s) = Some s"
  by (cases s) (simp_all add: ready_of_code_def ready_code_def)

lemma ready_code_inj [simp]: "ready_code a = ready_code b \<longleftrightarrow> a = b"
  by (metis ready_of_code_code option.inject)

lemma opened_le_iff: "Opened \<le> s \<longleftrightarrow> s \<noteq> Unsent"
  by (cases s) (simp_all add: less_eq_ready_state_def)

lemma readyStateToString_inj:
  "readyStateToString (ready_code a) = readyStateToString (ready_code b) \<longleftrightarrow> a = b"
  by (cases a; cases b) (simp_all add: readyStateToString_def)

end
