(* ===== verification/Session_State.thy ===== *)
theory Session_State
  imports Http_Messages Url_Parser Ready_State
begin

text \<open>
  The state behind a session: a \<open>Stream\<close> (\<open>sessionstream.cpp\<close>), the table of streams and the fields of
  \<open>AbstractSession::Impl\<close> (\<open>abstractsession.cpp\<close>), with the operations that touch only them.

  A stream reached through a shared pointer is always one of the table, so the pointer is its key
  and a change through it is a change of the entry. The session object of nghttp2 is a value of an
  arbitrary type \<open>'ng\<close>. The asynchronous operations that have been started and not yet completed are
  listed in \<open>ops\<close>; what the session reports to its user and to the socket is appended to \<open>log\<close>.
  The write buffer is the list of the \<open>wblen_\<close> bytes it holds.
\<close>

section \<open>Streams\<close>

datatype stream_state =
    Idle | ReservedLocal | ReservedRemote | Open | HalfClosedLocal | HalfClosedRemote | Closed

record stream =
  stream_id :: "32 word"
  raw_stream :: "nat option"
  rq :: request
  rp :: response
  status_code :: "32 word"
  st :: stream_state

definition default_stream :: stream where
  "default_stream =
     \<lparr>stream_id = 0, raw_stream = None, rq = new_request, rp = new_response, status_code = 0, st = Idle\<rparr>"

definition set_id :: "32 word \<Rightarrow> stream \<Rightarrow> stream" where
  "set_id i x = x\<lparr>stream_id := i\<rparr>"

definition set_stream :: "nat option \<Rightarrow> stream \<Rightarrow> stream" where
  "set_stream p x = x\<lparr>raw_stream := p\<rparr>"

definition new_stream :: "32 word \<Rightarrow> nat option \<Rightarrow> stream" where
  "new_stream i p = set_stream p (set_id i default_stream)"

definition get_id :: "stream \<Rightarrow> int" where
  "get_id x = sint (stream_id x)"

definition set_status :: "32 word \<Rightarrow> stream \<Rightarrow> stream" where
  "set_status c x = x\<lparr>status_code := c\<rparr>"

definition set_state :: "stream_state \<Rightarrow> stream \<Rightarrow> stream" where
  "set_state s x = x\<lparr>st := s\<rparr>"

definition get_status :: "stream \<Rightarrow> 32 word" where
  "get_status x = status_code x"

definition get_state :: "stream \<Rightarrow> stream_state" where
  "get_state x = st x"

definition expectFinalResponse :: "stream \<Rightarrow> bool" where
  "expectFinalResponse x \<longleftrightarrow> unat (get_status x) div 100 = 1"

declare default_stream_def [simp] set_id_def [simp] set_stream_def [simp] get_status_def [simp] get_state_def [simp]

section \<open>The table of streams\<close>

type_synonym stream_key = "64 word"

type_synonym streams = "(stream_key \<times> stream) list"

definition table_find :: "stream_key \<Rightarrow> streams \<Rightarrow> stream option" where
  "table_find k m = map_of m k"

definition try_emplace :: "stream_key \<Rightarrow> stream \<Rightarrow> streams \<Rightarrow> streams \<times> bool" where
  "try_emplace k x m = (if table_find k m = None then (m @ [(k, x)], True) else (m, False))"

definition table_erase :: "stream_key \<Rightarrow> streams \<Rightarrow> streams" where
  "table_erase k m = filter (\<lambda>p. fst p \<noteq> k) m"

definition table_update :: "stream_key \<Rightarrow> (stream \<Rightarrow> stream) \<Rightarrow> streams \<Rightarrow> streams" where
  "table_update k f m = map (\<lambda>(j, x). (j, if j = k then f x else x)) m"

text \<open>What the session relies on when it keeps streams under keys.\<close>

locale keyed_table =
  fixes look :: "'k \<Rightarrow> 'm \<Rightarrow> 'v option"
    and ins :: "'k \<Rightarrow> 'v \<Rightarrow> 'm \<Rightarrow> 'm \<times> bool"
    and del :: "'k \<Rightarrow> 'm \<Rightarrow> 'm"
    and upd :: "'k \<Rightarrow> ('v \<Rightarrow> 'v) \<Rightarrow> 'm \<Rightarrow> 'm"
  assumes look_ins: "look j (fst (ins k v m)) = (if j = k \<and> look k m = None then Some v else look j m)"
    and ins_new: "snd (ins k v m) \<longleftrightarrow> look k m = None"
    and look_del: "look j (del k m) = (if j = k then None else look j m)"
    and look_upd: "look j (upd k f m) = (if j = k then map_option f (look j m) else look j m)"
begin

lemma ins_keeps: "look j m = Some x \<Longrightarrow> look j (fst (ins k v m)) = Some x"
  by (auto simp: look_ins)

lemma ins_present: "look k (fst (ins k v m)) \<noteq> None"
  by (simp add: look_ins)

lemma del_ins_new: "look k m = None \<Longrightarrow> look j (del k (fst (ins k v m))) = look j m"
  by (simp add: look_del look_ins)

lemma upd_ins_other: "j \<noteq> k \<Longrightarrow> look j (upd k f (fst (ins k v m))) = look j m"
  by (simp add: look_upd look_ins)

end

interpretation table: keyed_table table_find try_emplace table_erase table_update
proof
  fix j k x m f
  show "table_find j (fst (try_emplace k x m)) =
      (if j = k \<and> table_find k m = None then Some x else table_find j m)"
    by (auto simp: table_find_def try_emplace_def map_add_def split: option.split)
  show "snd (try_emplace k x m) \<longleftrightarrow> table_find k m = None"
    by (simp add: try_emplace_def)
  show "table_find j (table_erase k m) = (if j = k then None else table_find j m)"
    by (induction m) (auto simp: table_find_def table_erase_def)
  show "table_find j (table_update k f m) =
      (if j = k then map_option f (table_find j m) else table_find j m)"
    by (induction m) (auto simp: table_find_def table_update_def)
qed

section \<open>The session\<close>

datatype async_op = ReadOp | WriteOp "byte list" | PingOp | DeadlineOp

datatype ready_callback =
    NoReady
  | ReadyThen bool  \<comment> \<open>installed by the request; the flag: it stops the session (synchronous mode)\<close>

datatype event =
    StateChange byte
  | ReadyEvent request response
  | ConnectEvent
  | StopEvent
  | SocketShutdown

record 'ng session =
  ng :: "'ng option"
  streams :: streams
  stopped :: bool
  writing :: bool
  insideCb :: bool
  ping_started :: bool
  wb :: "byte list"
  data_pending :: "byte list option"
  parser :: http_parser_url
  mime :: string
  on_ready :: ready_callback
  on_stop :: bool
  on_start :: bool
  on_state :: bool
  ops :: "async_op list"
  log :: "event list"

text \<open>
  The constructor leaves \<open>wblen_\<close> uninitialised: \<open>garbage\<close> is the contents the write buffer then
  seems to have.
\<close>

definition new_session :: "byte list \<Rightarrow> 'ng session" where
  "new_session garbage =
     \<lparr>ng = None, streams = [], stopped = True, writing = False, insideCb = False, ping_started = False,
      wb = garbage, data_pending = None,
      parser = \<lparr>field_set = 0, port = 0, field_data = \<lambda>_. \<lparr>off = 0, len = 0\<rparr>\<rparr>, mime = [],
      on_ready = NoReady, on_stop = False, on_start = False, on_state = False, ops = [], log = []\<rparr>"

text \<open>
  What the functions of other classes see of the fields; a callback is there or not, which is all its
  user tests before calling it.
\<close>

definition isStopped :: "'ng session \<Rightarrow> bool" where
  "isStopped s = stopped s"

definition setStopped :: "bool \<Rightarrow> 'ng session \<Rightarrow> 'ng session" where
  "setStopped b s = s\<lparr>stopped := b\<rparr>"

definition getOnReadyCallback :: "'ng session \<Rightarrow> ready_callback" where
  "getOnReadyCallback s = on_ready s"

definition getOnStopCallback :: "'ng session \<Rightarrow> bool" where
  "getOnStopCallback s = on_stop s"

definition getOnConnectCallback :: "'ng session \<Rightarrow> bool" where
  "getOnConnectCallback s = on_start s"

definition getOnStateChangeCallback :: "'ng session \<Rightarrow> bool" where
  "getOnStateChangeCallback s = on_state s"

definition getMimeOverridenType :: "'ng session \<Rightarrow> string" where
  "getMimeOverridenType s = mime s"

definition getWriteBuffer :: "'ng session \<Rightarrow> byte list" where
  "getWriteBuffer s = wb s"

definition getWriteBufferSize :: "'ng session \<Rightarrow> nat" where
  "getWriteBufferSize s = length (wb s)"

definition rawSession :: "'ng session \<Rightarrow> 'ng option" where
  "rawSession s = ng s"

declare isStopped_def [simp] setStopped_def [simp] getOnReadyCallback_def [simp] getOnStopCallback_def [simp]
  getOnConnectCallback_def [simp] getOnStateChangeCallback_def [simp] getMimeOverridenType_def [simp]
  getWriteBuffer_def [simp] getWriteBufferSize_def [simp] rawSession_def [simp]

text \<open>The size literals of \<open>literals.h\<close>, and the size of the two buffers, \<open>64_Kb\<close>.\<close>

definition Kb :: "64 word \<Rightarrow> 64 word" where
  "Kb k = k * 1024"

definition Mb :: "64 word \<Rightarrow> 64 word" where
  "Mb m = m * 1024 * 1024"

definition Gb :: "64 word \<Rightarrow> 64 word" where
  "Gb g = g * 1024 * 1024 * 1024"

definition wb_size :: nat where
  "wb_size = unat (Kb 64)"

lemma wb_size_value: "wb_size = 65536"
  by (simp add: wb_size_def Kb_def)

definition emit :: "event \<Rightarrow> 'ng session \<Rightarrow> 'ng session" where
  "emit e s = s\<lparr>log := log s @ [e]\<rparr>"

definition notify_state :: "ready_state \<Rightarrow> 'ng session \<Rightarrow> 'ng session" where
  "notify_state r s = (if getOnStateChangeCallback s then emit (StateChange (ready_code r)) s else s)"

text \<open>Shutting the socket down stops the io service, which the request observes.\<close>

definition shutdownSocket :: "'ng session \<Rightarrow> 'ng session" where
  "shutdownSocket s = emit SocketShutdown s"

definition start_op :: "async_op \<Rightarrow> 'ng session \<Rightarrow> 'ng session" where
  "start_op a s = s\<lparr>ops := ops s @ [a]\<rparr>"

definition cancelPing :: "'ng session \<Rightarrow> 'ng session" where
  "cancelPing s = s\<lparr>ping_started := False\<rparr>"

text \<open>
  \<open>onStopCallback();\<close> in the source names a type, not the stored callback: it makes an empty function
  object and drops it.
\<close>

definition stop :: "'ng session \<Rightarrow> 'ng session" where
  "stop s =
     (if isStopped s then s
      else
        let s = cancelPing s; s = shutdownSocket s; s = setStopped True s in
        if on_stop s then s else s)"

section \<open>Streams of a session\<close>

definition add_key :: "stream \<Rightarrow> stream_key" where
  "add_key x = word_of_int (get_id x)"

definition addStream :: "stream \<Rightarrow> 'ng session \<Rightarrow> 'ng session \<times> bool" where
  "addStream x s =
     (case try_emplace (add_key x) x (streams s) of (m, ok) \<Rightarrow> (s\<lparr>streams := m\<rparr>, ok))"

definition findStream :: "32 word \<Rightarrow> 'ng session \<Rightarrow> stream option" where
  "findStream i s = table_find (ucast i) (streams s)"

definition updStream :: "32 word \<Rightarrow> (stream \<Rightarrow> stream) \<Rightarrow> 'ng session \<Rightarrow> 'ng session" where
  "updStream i f s = s\<lparr>streams := table_update (ucast i) f (streams s)\<rparr>"

definition removeStream :: "32 word \<Rightarrow> 'ng session \<Rightarrow> 'ng session" where
  "removeStream i s = s\<lparr>streams := table_erase (ucast i) (streams s)\<rparr>"

definition findClosedStreams :: "'ng session \<Rightarrow> stream list" where
  "findClosedStreams s = filter (\<lambda>x. get_state x = Closed) (map snd (streams s))"

definition streamsEmpty :: "'ng session \<Rightarrow> bool" where
  "streamsEmpty s \<longleftrightarrow> streams s = []"

text \<open>Identifiers that fit 31 bits are added and found under the same key.\<close>

definition valid_id :: "32 word \<Rightarrow> bool" where
  "valid_id i \<longleftrightarrow> unat i < 2 ^ 31"

lemma add_key_valid:
  assumes "valid_id (stream_id x)"
  shows "add_key x = ucast (stream_id x)"
proof -
  have "uint (stream_id x) < 2 ^ 31"
    using assms unfolding valid_id_def uint_nat by (metis of_nat_less_iff of_nat_numeral of_nat_power)
  moreover have "- (2 ^ 31) \<le> uint (stream_id x)"
    by (rule order_trans [of _ 0]) simp_all
  ultimately have "signed_take_bit 31 (uint (stream_id x)) = uint (stream_id x)"
    by (intro signed_take_bit_int_eq_self)
  then have "sint (stream_id x) = uint (stream_id x)"
    by (simp add: sint_uint)
  then show ?thesis
    by (simp add: add_key_def get_id_def)
qed

lemma ucast_key_inj: "(ucast (i :: 32 word) :: 64 word) = ucast j \<longleftrightarrow> i = j"
  by (auto dest!: arg_cong [where f = unat] simp: unsigned_ucast_eq take_bit_nat_eq_self
      less_trans [OF unsigned_less] word_unat_eq_iff)

lemma findStream_add:
  assumes "valid_id (stream_id x)"
  shows "findStream i (fst (addStream x s)) =
      (if i = stream_id x \<and> findStream i s = None then Some x else findStream i s)"
    and "snd (addStream x s) \<longleftrightarrow> findStream (stream_id x) s = None"
  using table.look_ins [of "ucast i" "ucast (stream_id x)" x "streams s"]
    table.ins_new [of "ucast (stream_id x)" x "streams s"]
  by (auto simp: addStream_def findStream_def add_key_valid [OF assms] ucast_key_inj split: prod.splits)

lemma findStream_upd:
  "findStream j (updStream i f s) = (if j = i then map_option f (findStream j s) else findStream j s)"
  by (simp add: findStream_def updStream_def table.look_upd ucast_key_inj)

lemma findStream_remove:
  "findStream j (removeStream i s) = (if j = i then None else findStream j s)"
  by (simp add: findStream_def removeStream_def table.look_del ucast_key_inj)

section \<open>What the operations leave alone\<close>

text \<open>
  The fields the callbacks and the input and output loops read are not touched by the operations on
  streams and on the log.
\<close>

lemma frame_emit [simp, frame_simps]:
  "ng (emit e s) = ng s" "streams (emit e s) = streams s" "stopped (emit e s) = stopped s"
  "writing (emit e s) = writing s" "insideCb (emit e s) = insideCb s" "wb (emit e s) = wb s"
  "data_pending (emit e s) = data_pending s" "mime (emit e s) = mime s" "on_ready (emit e s) = on_ready s"
  "on_state (emit e s) = on_state s" "ops (emit e s) = ops s" "parser (emit e s) = parser s"
  "log (emit e s) = log s @ [e]" "findStream i (emit e s) = findStream i s"
  by (simp_all add: emit_def findStream_def)

declare shutdownSocket_def [simp]

lemma frame_notify [simp, frame_simps]:
  "ng (notify_state r s) = ng s" "streams (notify_state r s) = streams s"
  "stopped (notify_state r s) = stopped s" "writing (notify_state r s) = writing s"
  "insideCb (notify_state r s) = insideCb s" "wb (notify_state r s) = wb s"
  "data_pending (notify_state r s) = data_pending s" "mime (notify_state r s) = mime s"
  "on_ready (notify_state r s) = on_ready s" "on_state (notify_state r s) = on_state s"
  "ops (notify_state r s) = ops s" "parser (notify_state r s) = parser s"
  "log (notify_state r s) = log s @ (if on_state s then [StateChange (ready_code r)] else [])"
  "findStream i (notify_state r s) = findStream i s"
  by (simp_all add: notify_state_def)

lemma frame_upd [simp, frame_simps]:
  "ng (updStream i f s) = ng s" "stopped (updStream i f s) = stopped s" "writing (updStream i f s) = writing s"
  "insideCb (updStream i f s) = insideCb s" "wb (updStream i f s) = wb s"
  "data_pending (updStream i f s) = data_pending s" "mime (updStream i f s) = mime s"
  "on_ready (updStream i f s) = on_ready s" "on_state (updStream i f s) = on_state s"
  "ops (updStream i f s) = ops s" "parser (updStream i f s) = parser s" "log (updStream i f s) = log s"
  by (simp_all add: updStream_def)

lemma frame_add [simp, frame_simps]:
  "ng (fst (addStream x s)) = ng s" "stopped (fst (addStream x s)) = stopped s"
  "writing (fst (addStream x s)) = writing s" "insideCb (fst (addStream x s)) = insideCb s"
  "wb (fst (addStream x s)) = wb s" "data_pending (fst (addStream x s)) = data_pending s"
  "mime (fst (addStream x s)) = mime s" "on_ready (fst (addStream x s)) = on_ready s"
  "on_state (fst (addStream x s)) = on_state s" "ops (fst (addStream x s)) = ops s"
  "parser (fst (addStream x s)) = parser s" "log (fst (addStream x s)) = log s"
  by (simp_all add: addStream_def split: prod.split)

lemma frame_remove [simp, frame_simps]:
  "ng (removeStream i s) = ng s" "stopped (removeStream i s) = stopped s" "writing (removeStream i s) = writing s"
  "insideCb (removeStream i s) = insideCb s" "wb (removeStream i s) = wb s"
  "data_pending (removeStream i s) = data_pending s" "mime (removeStream i s) = mime s"
  "on_ready (removeStream i s) = on_ready s" "on_state (removeStream i s) = on_state s"
  "ops (removeStream i s) = ops s" "parser (removeStream i s) = parser s" "log (removeStream i s) = log s"
  by (simp_all add: removeStream_def)

lemma frame_stop [simp, frame_simps]:
  "ng (stop s) = ng s" "streams (stop s) = streams s" "writing (stop s) = writing s"
  "insideCb (stop s) = insideCb s" "wb (stop s) = wb s" "data_pending (stop s) = data_pending s"
  "mime (stop s) = mime s" "on_ready (stop s) = on_ready s" "on_state (stop s) = on_state s"
  "ops (stop s) = ops s" "parser (stop s) = parser s" "findStream i (stop s) = findStream i s"
  "stopped (stop s)" "log (stop s) = log s @ (if stopped s then [] else [SocketShutdown])"
  by (auto simp: stop_def cancelPing_def Let_def findStream_def)

text \<open>
  Stopping is idempotent: the socket is shut down once, by the first \<open>stop\<close> of a running session,
  and every later one changes nothing. The stored stop callback is never called, whether one is set
  or not: no \<open>StopEvent\<close> is reported.
\<close>

theorem stop_once:
  "stop (stop s) = stop s \<and> stopped (stop s) \<and>
   log (stop s) = log s @ (if stopped s then [] else [SocketShutdown]) \<and>
   count_list (log (stop s)) StopEvent = count_list (log s) StopEvent"
  by (auto simp: stop_def cancelPing_def Let_def)

text \<open>
  C26: The table of streams keeps what it is given: a stream that is added is found under its
  identifier unless one was there already, which then stays; no other stream is affected, and removing
  the stream restores the table.
\<close>

theorem stream_table_roundtrip:
  assumes "valid_id (stream_id x)"
  shows "findStream i (fst (addStream x s)) =
      (if i = stream_id x \<and> findStream i s = None then Some x else findStream i s) \<and>
    snd (addStream x s) = (findStream (stream_id x) s = None) \<and>
    (findStream (stream_id x) s = None \<longrightarrow>
       findStream i (removeStream (stream_id x) (fst (addStream x s))) = findStream i s)"
  by (simp add: findStream_add [OF assms] findStream_remove)

theorem stream_table_roundtrip_witness:
  "(let s = new_session [] :: unit session; x = new_stream 3 None in
    findStream 3 (fst (addStream x s)) = Some x \<and>
    findStream 3 (removeStream 3 (fst (addStream x s))) = findStream 3 s)"
proof -
  let ?s = "new_session [] :: unit session" and ?x = "new_stream 3 None"
  have "valid_id (stream_id ?x)" and id: "stream_id ?x = 3" and none: "findStream 3 ?s = None"
    by (simp_all add: valid_id_def new_stream_def findStream_def new_session_def table_find_def)
  from stream_table_roundtrip [OF this(1), of 3 ?s] show ?thesis
    unfolding id none Let_def by simp
qed

end
