(* ===== verification/Http2_Tokens.thy ===== *)
theory Http2_Tokens
  imports Text_Utils
begin

text \<open>
  \<open>source/http2.cpp\<close>: the tables of the protocol. \<open>header_token\<close> is the enumeration of
  \<open>include/http2.h\<close> less its end marker \<open>HD_MAXIDX\<close>; the answer -1 of \<open>lookup_token\<close> is \<open>None\<close>.
  The nested switch of \<open>lookup_token\<close> is kept as it is, one definition \<open>lookup_len<n>\<close> per case of
  the outer switch. What the switch is for is stated by \<open>header_name\<close>, the field name each token
  stands for: the lookup answers a token exactly on that name.
\<close>

section \<open>The tables\<close>

datatype header_token =
    HD__AUTHORITY | HD__HOST | HD__METHOD | HD__PATH
  | HD__PROTOCOL | HD__SCHEME | HD__STATUS | HD_ACCEPT_ENCODING
  | HD_ACCEPT_LANGUAGE | HD_ALT_SVC | HD_CACHE_CONTROL | HD_CONNECTION
  | HD_CONTENT_LENGTH | HD_CONTENT_TYPE | HD_COOKIE | HD_DATE
  | HD_EARLY_DATA | HD_EXPECT | HD_FORWARDED | HD_HOST
  | HD_HTTP2_SETTINGS | HD_IF_MODIFIED_SINCE | HD_KEEP_ALIVE | HD_LINK
  | HD_LOCATION | HD_PROXY_CONNECTION | HD_SEC_WEBSOCKET_ACCEPT | HD_SEC_WEBSOCKET_KEY
  | HD_SERVER | HD_TE | HD_TRAILER | HD_TRANSFER_ENCODING
  | HD_UPGRADE | HD_USER_AGENT | HD_VIA | HD_X_FORWARDED_FOR
  | HD_X_FORWARDED_PROTO

definition get_reason_phrase :: "nat \<Rightarrow> string" where
  "get_reason_phrase status_code =
     (if status_code = 100 then ''Continue''
      else if status_code = 101 then ''Switching Protocols''
      else if status_code = 103 then ''Early Hints''
      else if status_code = 200 then ''OK''
      else if status_code = 201 then ''Created''
      else if status_code = 202 then ''Accepted''
      else if status_code = 203 then ''Non-Authoritative Information''
      else if status_code = 204 then ''No Content''
      else if status_code = 205 then ''Reset Content''
      else if status_code = 206 then ''Partial Content''
      else if status_code = 300 then ''Multiple Choices''
      else if status_code = 301 then ''Moved Permanently''
      else if status_code = 302 then ''Found''
      else if status_code = 303 then ''See Other''
      else if status_code = 304 then ''Not Modified''
      else if status_code = 305 then ''Use Proxy''
      else if status_code = 307 then ''Temporary Redirect''
      else if status_code = 308 then ''Permanent Redirect''
      else if status_code = 400 then ''Bad Request''
      else if status_code = 401 then ''Unauthorized''
      else if status_code = 402 then ''Payment Required''
      else if status_code = 403 then ''Forbidden''
      else if status_code = 404 then ''Not Found''
      else if status_code = 405 then ''Method Not Allowed''
      else if status_code = 406 then ''Not Acceptable''
      else if status_code = 407 then ''Proxy Authentication Required''
      else if status_code = 408 then ''Request Timeout''
      else if status_code = 409 then ''Conflict''
      else if status_code = 410 then ''Gone''
      else if status_code = 411 then ''Length Required''
      else if status_code = 412 then ''Precondition Failed''
      else if status_code = 413 then ''Payload Too Large''
      else if status_code = 414 then ''URI Too Long''
      else if status_code = 415 then ''Unsupported Media Type''
      else if status_code = 416 then ''Requested Range Not Satisfiable''
      else if status_code = 417 then ''Expectation Failed''
      else if status_code = 421 then ''Misdirected Request''
      else if status_code = 425 then ''Too Early''
      else if status_code = 426 then ''Upgrade Required''
      else if status_code = 428 then ''Precondition Required''
      else if status_code = 429 then ''Too Many Requests''
      else if status_code = 431 then ''Request Header Fields Too Large''
      else if status_code = 451 then ''Unavailable For Legal Reasons''
      else if status_code = 500 then ''Internal Server Error''
      else if status_code = 501 then ''Not Implemented''
      else if status_code = 502 then ''Bad Gateway''
      else if status_code = 503 then ''Service Unavailable''
      else if status_code = 504 then ''Gateway Timeout''
      else if status_code = 505 then ''HTTP Version Not Supported''
      else if status_code = 511 then ''Network Authentication Required''
      else '''')"

definition stringify_status :: "nat \<Rightarrow> string" where
  "stringify_status status_code =
     (if status_code = 100 then ''100''
      else if status_code = 101 then ''101''
      else if status_code = 103 then ''103''
      else if status_code = 200 then ''200''
      else if status_code = 201 then ''201''
      else if status_code = 202 then ''202''
      else if status_code = 203 then ''203''
      else if status_code = 204 then ''204''
      else if status_code = 205 then ''205''
      else if status_code = 206 then ''206''
      else if status_code = 300 then ''300''
      else if status_code = 301 then ''301''
      else if status_code = 302 then ''302''
      else if status_code = 303 then ''303''
      else if status_code = 304 then ''304''
      else if status_code = 305 then ''305''
      else if status_code = 307 then ''307''
      else if status_code = 308 then ''308''
      else if status_code = 400 then ''400''
      else if status_code = 401 then ''401''
      else if status_code = 402 then ''402''
      else if status_code = 403 then ''403''
      else if status_code = 404 then ''404''
      else if status_code = 405 then ''405''
      else if status_code = 406 then ''406''
      else if status_code = 407 then ''407''
      else if status_code = 408 then ''408''
      else if status_code = 409 then ''409''
      else if status_code = 410 then ''410''
      else if status_code = 411 then ''411''
      else if status_code = 412 then ''412''
      else if status_code = 413 then ''413''
      else if status_code = 414 then ''414''
      else if status_code = 415 then ''415''
      else if status_code = 416 then ''416''
      else if status_code = 417 then ''417''
      else if status_code = 421 then ''421''
      else if status_code = 426 then ''426''
      else if status_code = 428 then ''428''
      else if status_code = 429 then ''429''
      else if status_code = 431 then ''431''
      else if status_code = 451 then ''451''
      else if status_code = 500 then ''500''
      else if status_code = 501 then ''501''
      else if status_code = 502 then ''502''
      else if status_code = 503 then ''503''
      else if status_code = 504 then ''504''
      else if status_code = 505 then ''505''
      else if status_code = 511 then ''511''
      else ''Unknown'')"

fun status_loop :: "int \<Rightarrow> string \<Rightarrow> int option" where
  "status_loop status [] = Some status"
| "status_loop status (c # cs) =
     (if \<not> is_dec c then None
      else status_loop (status * 10 + (schar c - schar CHR ''0'')) cs)"

definition parse_http_status_code :: "string \<Rightarrow> int" where
  "parse_http_status_code src =
     (if length src \<noteq> 3 then -1
      else case status_loop 0 src of
        None \<Rightarrow> -1
      | Some status \<Rightarrow> if status < 100 then -1 else status)"

section \<open>Header names\<close>

definition lookup_len2 :: "byte list \<Rightarrow> header_token option" where
  "lookup_len2 name =
     (if name ! 1 = byte_of_char CHR ''e'' then
        (if streq_l ''t'' name 1 then Some HD_TE else None)
      else None)"

definition lookup_len3 :: "byte list \<Rightarrow> header_token option" where
  "lookup_len3 name =
     (if name ! 2 = byte_of_char CHR ''a'' then
        (if streq_l ''vi'' name 2 then Some HD_VIA else None)
      else None)"

definition lookup_len4 :: "byte list \<Rightarrow> header_token option" where
  "lookup_len4 name =
     (if name ! 3 = byte_of_char CHR ''e'' then
        (if streq_l ''dat'' name 3 then Some HD_DATE else None)
      else if name ! 3 = byte_of_char CHR ''k'' then
        (if streq_l ''lin'' name 3 then Some HD_LINK else None)
      else if name ! 3 = byte_of_char CHR ''t'' then
        (if streq_l ''hos'' name 3 then Some HD_HOST else None)
      else None)"

definition lookup_len5 :: "byte list \<Rightarrow> header_token option" where
  "lookup_len5 name =
     (if name ! 4 = byte_of_char CHR ''h'' then
        (if streq_l '':pat'' name 4 then Some HD__PATH else None)
      else if name ! 4 = byte_of_char CHR ''t'' then
        (if streq_l '':hos'' name 4 then Some HD__HOST else None)
      else None)"

definition lookup_len6 :: "byte list \<Rightarrow> header_token option" where
  "lookup_len6 name =
     (if name ! 5 = byte_of_char CHR ''e'' then
        (if streq_l ''cooki'' name 5 then Some HD_COOKIE else None)
      else if name ! 5 = byte_of_char CHR ''r'' then
        (if streq_l ''serve'' name 5 then Some HD_SERVER else None)
      else if name ! 5 = byte_of_char CHR ''t'' then
        (if streq_l ''expec'' name 5 then Some HD_EXPECT else None)
      else None)"

definition lookup_len7 :: "byte list \<Rightarrow> header_token option" where
  "lookup_len7 name =
     (if name ! 6 = byte_of_char CHR ''c'' then
        (if streq_l ''alt-sv'' name 6 then Some HD_ALT_SVC else None)
      else if name ! 6 = byte_of_char CHR ''d'' then
        (if streq_l '':metho'' name 6 then Some HD__METHOD else None)
      else if name ! 6 = byte_of_char CHR ''e'' then
        (if streq_l '':schem'' name 6 then Some HD__SCHEME
         else if streq_l ''upgrad'' name 6 then Some HD_UPGRADE else None)
      else if name ! 6 = byte_of_char CHR ''r'' then
        (if streq_l ''traile'' name 6 then Some HD_TRAILER else None)
      else if name ! 6 = byte_of_char CHR ''s'' then
        (if streq_l '':statu'' name 6 then Some HD__STATUS else None)
      else None)"

definition lookup_len8 :: "byte list \<Rightarrow> header_token option" where
  "lookup_len8 name =
     (if name ! 7 = byte_of_char CHR ''n'' then
        (if streq_l ''locatio'' name 7 then Some HD_LOCATION else None)
      else None)"

definition lookup_len9 :: "byte list \<Rightarrow> header_token option" where
  "lookup_len9 name =
     (if name ! 8 = byte_of_char CHR ''d'' then
        (if streq_l ''forwarde'' name 8 then Some HD_FORWARDED else None)
      else if name ! 8 = byte_of_char CHR ''l'' then
        (if streq_l '':protoco'' name 8 then Some HD__PROTOCOL else None)
      else None)"

definition lookup_len10 :: "byte list \<Rightarrow> header_token option" where
  "lookup_len10 name =
     (if name ! 9 = byte_of_char CHR ''a'' then
        (if streq_l ''early-dat'' name 9 then Some HD_EARLY_DATA else None)
      else if name ! 9 = byte_of_char CHR ''e'' then
        (if streq_l ''keep-aliv'' name 9 then Some HD_KEEP_ALIVE else None)
      else if name ! 9 = byte_of_char CHR ''n'' then
        (if streq_l ''connectio'' name 9 then Some HD_CONNECTION else None)
      else if name ! 9 = byte_of_char CHR ''t'' then
        (if streq_l ''user-agen'' name 9 then Some HD_USER_AGENT else None)
      else if name ! 9 = byte_of_char CHR ''y'' then
        (if streq_l '':authorit'' name 9 then Some HD__AUTHORITY else None)
      else None)"

definition lookup_len12 :: "byte list \<Rightarrow> header_token option" where
  "lookup_len12 name =
     (if name ! 11 = byte_of_char CHR ''e'' then
        (if streq_l ''content-typ'' name 11 then Some HD_CONTENT_TYPE else None)
      else None)"

definition lookup_len13 :: "byte list \<Rightarrow> header_token option" where
  "lookup_len13 name =
     (if name ! 12 = byte_of_char CHR ''l'' then
        (if streq_l ''cache-contro'' name 12 then Some HD_CACHE_CONTROL else None)
      else None)"

definition lookup_len14 :: "byte list \<Rightarrow> header_token option" where
  "lookup_len14 name =
     (if name ! 13 = byte_of_char CHR ''h'' then
        (if streq_l ''content-lengt'' name 13 then Some HD_CONTENT_LENGTH else None)
      else if name ! 13 = byte_of_char CHR ''s'' then
        (if streq_l ''http2-setting'' name 13 then Some HD_HTTP2_SETTINGS else None)
      else None)"

definition lookup_len15 :: "byte list \<Rightarrow> header_token option" where
  "lookup_len15 name =
     (if name ! 14 = byte_of_char CHR ''e'' then
        (if streq_l ''accept-languag'' name 14 then Some HD_ACCEPT_LANGUAGE else None)
      else if name ! 14 = byte_of_char CHR ''g'' then
        (if streq_l ''accept-encodin'' name 14 then Some HD_ACCEPT_ENCODING else None)
      else if name ! 14 = byte_of_char CHR ''r'' then
        (if streq_l ''x-forwarded-fo'' name 14 then Some HD_X_FORWARDED_FOR else None)
      else None)"

definition lookup_len16 :: "byte list \<Rightarrow> header_token option" where
  "lookup_len16 name =
     (if name ! 15 = byte_of_char CHR ''n'' then
        (if streq_l ''proxy-connectio'' name 15 then Some HD_PROXY_CONNECTION else None)
      else None)"

definition lookup_len17 :: "byte list \<Rightarrow> header_token option" where
  "lookup_len17 name =
     (if name ! 16 = byte_of_char CHR ''e'' then
        (if streq_l ''if-modified-sinc'' name 16 then Some HD_IF_MODIFIED_SINCE else None)
      else if name ! 16 = byte_of_char CHR ''g'' then
        (if streq_l ''transfer-encodin'' name 16 then Some HD_TRANSFER_ENCODING else None)
      else if name ! 16 = byte_of_char CHR ''o'' then
        (if streq_l ''x-forwarded-prot'' name 16 then Some HD_X_FORWARDED_PROTO else None)
      else if name ! 16 = byte_of_char CHR ''y'' then
        (if streq_l ''sec-websocket-ke'' name 16 then Some HD_SEC_WEBSOCKET_KEY else None)
      else None)"

definition lookup_len20 :: "byte list \<Rightarrow> header_token option" where
  "lookup_len20 name =
     (if name ! 19 = byte_of_char CHR ''t'' then
        (if streq_l ''sec-websocket-accep'' name 19 then Some HD_SEC_WEBSOCKET_ACCEPT else None)
      else None)"

definition lookup_token :: "byte list \<Rightarrow> nat \<Rightarrow> header_token option" where
  "lookup_token name namelen =
     (if namelen = 2 then lookup_len2 name
      else if namelen = 3 then lookup_len3 name
      else if namelen = 4 then lookup_len4 name
      else if namelen = 5 then lookup_len5 name
      else if namelen = 6 then lookup_len6 name
      else if namelen = 7 then lookup_len7 name
      else if namelen = 8 then lookup_len8 name
      else if namelen = 9 then lookup_len9 name
      else if namelen = 10 then lookup_len10 name
      else if namelen = 12 then lookup_len12 name
      else if namelen = 13 then lookup_len13 name
      else if namelen = 14 then lookup_len14 name
      else if namelen = 15 then lookup_len15 name
      else if namelen = 16 then lookup_len16 name
      else if namelen = 17 then lookup_len17 name
      else if namelen = 20 then lookup_len20 name
      else None)"

definition lookup_token_ref :: "string \<Rightarrow> header_token option" where
  "lookup_token_ref name = lookup_token (bytes name) (length name)"

fun header_name :: "header_token \<Rightarrow> string" where
  "header_name HD__AUTHORITY = '':authority''"
| "header_name HD__HOST = '':host''"
| "header_name HD__METHOD = '':method''"
| "header_name HD__PATH = '':path''"
| "header_name HD__PROTOCOL = '':protocol''"
| "header_name HD__SCHEME = '':scheme''"
| "header_name HD__STATUS = '':status''"
| "header_name HD_ACCEPT_ENCODING = ''accept-encoding''"
| "header_name HD_ACCEPT_LANGUAGE = ''accept-language''"
| "header_name HD_ALT_SVC = ''alt-svc''"
| "header_name HD_CACHE_CONTROL = ''cache-control''"
| "header_name HD_CONNECTION = ''connection''"
| "header_name HD_CONTENT_LENGTH = ''content-length''"
| "header_name HD_CONTENT_TYPE = ''content-type''"
| "header_name HD_COOKIE = ''cookie''"
| "header_name HD_DATE = ''date''"
| "header_name HD_EARLY_DATA = ''early-data''"
| "header_name HD_EXPECT = ''expect''"
| "header_name HD_FORWARDED = ''forwarded''"
| "header_name HD_HOST = ''host''"
| "header_name HD_HTTP2_SETTINGS = ''http2-settings''"
| "header_name HD_IF_MODIFIED_SINCE = ''if-modified-since''"
| "header_name HD_KEEP_ALIVE = ''keep-alive''"
| "header_name HD_LINK = ''link''"
| "header_name HD_LOCATION = ''location''"
| "header_name HD_PROXY_CONNECTION = ''proxy-connection''"
| "header_name HD_SEC_WEBSOCKET_ACCEPT = ''sec-websocket-accept''"
| "header_name HD_SEC_WEBSOCKET_KEY = ''sec-websocket-key''"
| "header_name HD_SERVER = ''server''"
| "header_name HD_TE = ''te''"
| "header_name HD_TRAILER = ''trailer''"
| "header_name HD_TRANSFER_ENCODING = ''transfer-encoding''"
| "header_name HD_UPGRADE = ''upgrade''"
| "header_name HD_USER_AGENT = ''user-agent''"
| "header_name HD_VIA = ''via''"
| "header_name HD_X_FORWARDED_FOR = ''x-forwarded-for''"
| "header_name HD_X_FORWARDED_PROTO = ''x-forwarded-proto''"

section \<open>The header index\<close>

text \<open>
  \<open>HeaderIndex\<close> is an array of \<open>HD_MAXIDX\<close> signed 16-bit entries. \<open>index_header\<close> takes the raw
  32-bit token: its \<open>assert\<close> checks the upper limit only.
\<close>

definition HD_MAXIDX :: int where "HD_MAXIDX = 37"

definition init_hdidx :: "16 word list \<Rightarrow> 16 word list" where
  "init_hdidx hdidx = map (\<lambda>_. -1) hdidx"

definition index_header :: "16 word list \<Rightarrow> int \<Rightarrow> nat \<Rightarrow> fault + 16 word list" where
  "index_header hdidx token idx =
     (if token = -1 then Inr hdidx
      else if \<not> token < HD_MAXIDX then Inl AssertFailed
      else if token < 0 \<or> int (length hdidx) \<le> token then Inl BadAccess
      else Inr (hdidx[nat token := of_nat idx]))"

lemmas lookup_len_defs =
  lookup_len2_def lookup_len3_def lookup_len4_def lookup_len5_def
  lookup_len6_def lookup_len7_def lookup_len8_def lookup_len9_def
  lookup_len10_def lookup_len12_def lookup_len13_def lookup_len14_def
  lookup_len15_def lookup_len16_def lookup_len17_def lookup_len20_def

section \<open>The lookup answers exactly the known names\<close>

lemma last_byte_match:
  assumes "name ! n = byte_of_char c" and "streq_l a name n" and "length name = Suc n"
  shows "name = bytes (a @ [c])"
proof -
  have "name = take n name @ [name ! n]"
    using assms(3) by (metis lessI take_Suc_conv_app_nth take_all le_refl)
  with assms(1,2) show ?thesis
    by (simp add: streq_l_def)
qed

lemma lookup_token_Some:
  "lookup_token name (length name) = Some t \<Longrightarrow> name = bytes (header_name t)"
  unfolding lookup_token_def lookup_len_defs
  by (auto split: if_splits dest!: last_byte_match)

lemma lookup_token_header_name:
  "lookup_token (bytes (header_name t)) (length (header_name t)) = Some t"
  by (cases t) (simp_all add: lookup_token_def lookup_len_defs streq_l_def)

text \<open>
  C16: For a byte string of any length, \<open>lookup_token\<close> answers a token exactly when the string is
  the field name of that token; on every other name it answers -1.
\<close>

theorem lookup_token_correct:
  "lookup_token name (length name) = Some t \<longleftrightarrow> name = bytes (header_name t)"
  using lookup_token_Some lookup_token_header_name [of t] by (auto simp: length_map)

lemma lookup_token_None:
  "lookup_token name (length name) = None \<longleftrightarrow> (\<forall>t. name \<noteq> bytes (header_name t))"
  using lookup_token_Some [of name] lookup_token_header_name
  by (metis length_map not_None_eq)

lemma lookup_token_bytes:
  "lookup_token (bytes s) (length s) = Some t \<longleftrightarrow> s = header_name t"
  using lookup_token_Some [of "bytes s" t] lookup_token_header_name [of t] by auto

lemma header_name_inj: "header_name t = header_name u \<Longrightarrow> t = u"
  by (metis lookup_token_header_name option.inject)

section \<open>Status codes\<close>

lemma status_loop_eq:
  "status_loop k s =
     (if list_all is_dec s then Some (k * 10 ^ length s + int (decimal s)) else None)"
proof (induction s arbitrary: k)
  case Nil
  then show ?case by simp
next
  case (Cons c s)
  have "is_dec c \<Longrightarrow> schar c - schar CHR ''0'' = int (dec_digit c)"
    unfolding is_dec_iff dec_digit_def schar_int by (auto simp: of_nat_diff)
  then show ?case
    by (simp add: Cons decimal_Cons algebra_simps)
qed

text \<open>
  \<open>parse_http_status_code\<close> accepts exactly the three-digit numerals from 100 on and returns
  their value; everything else is -1.
\<close>

theorem parse_http_status_code_exact:
  "parse_http_status_code src =
     (if length src = 3 \<and> list_all is_dec src \<and> 100 \<le> decimal src then int (decimal src) else -1)"
  by (simp add: parse_http_status_code_def status_loop_eq)

definition status_codes :: "nat list" where
  "status_codes =
     [100, 101, 103, 200, 201, 202, 203, 204, 205, 206, 300, 301,
      302, 303, 304, 305, 307, 308, 400, 401, 402, 403, 404, 405,
      406, 407, 408, 409, 410, 411, 412, 413, 414, 415, 416, 417,
      421, 426, 428, 429, 431, 451, 500, 501, 502, 503, 504, 505,
      511]"

lemma stringify_status_known:
  "n \<in> set status_codes \<Longrightarrow> stringify_status n = numeral_of n \<and> 100 \<le> n \<and> n < 1000"
proof -
  have "list_all (\<lambda>n. stringify_status n = numeral_of n \<and> 100 \<le> n \<and> n < 1000) status_codes"
    by code_simp
  then show "n \<in> set status_codes \<Longrightarrow> ?thesis"
    by (auto simp: list_all_iff)
qed

lemma stringify_status_unknown: "n \<notin> set status_codes \<Longrightarrow> stringify_status n = ''Unknown''"
  by (simp add: status_codes_def stringify_status_def)

lemma stringify_status_numeral:
  "stringify_status n \<noteq> ''Unknown'' \<Longrightarrow>
     stringify_status n = numeral_of n \<and> 100 \<le> n \<and> n < 1000"
  using stringify_status_known stringify_status_unknown by blast

lemma length_numeral_of_3:
  assumes "100 \<le> n" and "n < 1000"
  shows "length (numeral_of n) = 3"
proof -
  have "\<not> n < 10" "\<not> n div 10 < 10" "n div 10 div 10 < 10"
    using assms by auto
  then show ?thesis
    by (simp add: numeral_of.simps [of n] numeral_of.simps [of "n div 10"]
        numeral_of.simps [of "n div 10 div 10"])
qed

text \<open>
  C35: Printing a status code with \<open>stringify_status\<close> and parsing the result back gives the code
  again; the only exception is the answer Unknown, which does not parse.
\<close>

theorem stringify_status_parses:
  "parse_http_status_code (stringify_status n) =
     (if stringify_status n = ''Unknown'' then -1 else int n)"
proof (cases "stringify_status n = ''Unknown''")
  case True
  then show ?thesis by (simp add: parse_http_status_code_exact)
next
  case False
  then show ?thesis
    using stringify_status_numeral [OF False] length_numeral_of_3 [of n] numeral_of_digits [of n]
    by (simp add: parse_http_status_code_exact list_all_iff)
qed

text \<open>
  The two tables of status codes know the same codes, with one exception: 425 (Too Early) has a
  reason phrase but \<open>stringify_status\<close> answers Unknown for it.
\<close>

theorem status_tables_differ_at_425:
  "(get_reason_phrase n = [] \<longleftrightarrow> stringify_status n = ''Unknown'') \<longleftrightarrow> n \<noteq> 425"
  unfolding get_reason_phrase_def stringify_status_def
  by (cases "n = 425")
     (simp_all split del: if_split add: if_distrib [of "\<lambda>x. x = []"] if_distrib [of "\<lambda>x. x = ''Unknown''"] cong: if_cong)

section \<open>Index lemmas\<close>

lemma index_header_in_range:
  "length hdidx = 37 \<Longrightarrow> 0 \<le> token \<Longrightarrow> token < HD_MAXIDX \<Longrightarrow>
     index_header hdidx token idx = Inr (hdidx[nat token := of_nat idx])"
  by (simp add: index_header_def HD_MAXIDX_def)

end
