(* ===== verification/Session_Callbacks.thy ===== *)
theory Session_Callbacks
  imports Session_State Http2_Tokens
begin

text \<open>
  \<open>sessioncallbacks.cpp\<close>: the functions nghttp2 calls while it takes in received bytes
  (\<open>onBeginHeaders\<close>, \<open>onHeader\<close>, \<open>onFrameRecv\<close>, \<open>onDataChunkRecv\<close>), before it sends a frame
  (\<open>beforeFrameSend\<close>) and when a stream ends (\<open>onStreamClose\<close>), as functions of the session. \<open>onSendCallback\<close> is not installed
  and does nothing; the log messages are left out. \<open>find_raw\<close> is
  \<open>nghttp2_session_find_stream\<close> on the session's current nghttp2 object. The callbacks of the user run
  to completion without calling back into the session, except for the \<open>stop\<close> of a synchronous request.
\<close>

section \<open>Frames\<close>

datatype frame_type =
    DATA | HEADERS | PRIORITY | RST_STREAM | SETTINGS | PUSH_PROMISE | PING | GOAWAY | WINDOW_UPDATE
  | CONTINUATION | ALTSVC | ORIGIN | OTHER_FRAME

datatype headers_category = HCAT_REQUEST | HCAT_RESPONSE | HCAT_PUSH_RESPONSE | HCAT_HEADERS

record frame =
  ftype :: frame_type
  fstream :: "32 word"
  fflags :: byte
  fcat :: headers_category
  promised :: "32 word"
  nva :: "(string \<times> string) list"

definition FLAG_END_STREAM :: byte where "FLAG_END_STREAM = 1"

definition NV_FLAG_NO_INDEX :: byte where "NV_FLAG_NO_INDEX = 1"

definition has_flag :: "byte \<Rightarrow> byte \<Rightarrow> bool" where
  "has_flag flags f \<longleftrightarrow> flags AND f \<noteq> 0"

section \<open>The handlers\<close>

definition createPushStream :: "('ng option \<Rightarrow> 32 word \<Rightarrow> nat option) \<Rightarrow> 32 word \<Rightarrow> 'ng session \<Rightarrow> stream" where
  "createPushStream find_raw i s = new_stream i (find_raw (ng s) i)"

definition onSendCallback :: "byte list \<Rightarrow> 'ng session \<Rightarrow> 'ng session \<times> int" where
  "onSendCallback data s = (s, 0)"

definition onBeginHeaders :: "('ng option \<Rightarrow> 32 word \<Rightarrow> nat option) \<Rightarrow> frame \<Rightarrow> 'ng session \<Rightarrow> 'ng session" where
  "onBeginHeaders find_raw f s =
     (if ftype f \<noteq> PUSH_PROMISE then fst (addStream (new_stream (fstream f) (find_raw (rawSession s) (fstream f))) s)
      else fst (addStream (createPushStream find_raw (promised f) s) s))"

definition is_space :: "char \<Rightarrow> bool" where
  "is_space c \<longleftrightarrow> c = CHR '' '' \<or> (CHR 0x09 \<le> c \<and> c \<le> CHR 0x0D)"

text \<open>The field that replaces a content type: the overriding type is cut at its first semicolon.\<close>

definition override_field :: "string \<Rightarrow> byte \<Rightarrow> response \<Rightarrow> response" where
  "override_field type flags res =
     (case index_from CHR '';'' 0 type of
        Some p \<Rightarrow>
          (if p + 1 \<le> length type then
             add_rp_header (take p type)
               \<lparr>hv_value = filter (\<lambda>c. \<not> is_space c) (drop (p + 1) type),
                sensitive = has_flag flags NV_FLAG_NO_INDEX\<rparr> res
           else res)
      | None \<Rightarrow> res)"

definition save_field :: "string \<Rightarrow> string \<Rightarrow> byte \<Rightarrow> response \<Rightarrow> response" where
  "save_field name v flags res =
     add_rp_header name \<lparr>hv_value = v, sensitive = has_flag flags NV_FLAG_NO_INDEX\<rparr> res"

definition response_field :: "string \<Rightarrow> string \<Rightarrow> string \<Rightarrow> byte \<Rightarrow> response \<Rightarrow> response" where
  "response_field type name v flags res =
     (let token = lookup_token (bytes name) (length name) in
      if token = Some HD__STATUS then save_field name v flags (set_statusCode (parse_uint (bytes v)) res)
      else if token = Some HD_CONTENT_LENGTH then
        save_field name v flags (set_contentLength (parse_uint (bytes v)) res)
      else if token = Some HD_CONTENT_TYPE \<and> type \<noteq> [] then override_field type flags res
      else save_field name v flags res)"

definition push_field :: "string \<Rightarrow> string \<Rightarrow> byte \<Rightarrow> request \<Rightarrow> request" where
  "push_field name v flags req =
     (let token = lookup_token (bytes name) (length name);
          keep = add_header name \<lparr>hv_value = v, sensitive = has_flag flags NV_FLAG_NO_INDEX\<rparr>
      in if token = Some HD__METHOD then set_method v req
         else if token = Some HD__SCHEME then set_scheme v req
         else if token = Some HD__PATH then req
         else if token = Some HD__AUTHORITY then set_host v req
         else if token = Some HD_HOST then
           (case get_host req of (h, req) \<Rightarrow> keep (if h = [] then set_host v req else req))
         else keep req)"

definition onHeader :: "frame \<Rightarrow> string \<Rightarrow> string \<Rightarrow> byte \<Rightarrow> 'ng session \<Rightarrow> 'ng session" where
  "onHeader f name v flags s =
     (if ftype f = HEADERS then
        let s = notify_state HeadersReceived s in
        case findStream (fstream f) s of
          None \<Rightarrow> s
        | Some strm \<Rightarrow>
            if fcat f = HCAT_HEADERS then s
            else updStream (fstream f) (\<lambda>x. x\<lparr>rp := response_field (getMimeOverridenType s) name v flags (rp x)\<rparr>) s
      else if ftype f = PUSH_PROMISE then
        case findStream (promised f) s of
          None \<Rightarrow> s
        | Some strm \<Rightarrow>
            updStream (promised f)
              (\<lambda>x. (if st x = Idle then set_state ReservedRemote x else x)
                     \<lparr>rq := push_field name v flags (rq x)\<rparr>) s
      else s)"

text \<open>What a received frame does to its stream, and whether \<open>onFrameRecv\<close> found one.\<close>

definition frame_received :: "frame \<Rightarrow> stream \<Rightarrow> stream" where
  "frame_received f x =
     (if ftype f = DATA then
        (if st x = Idle then x
         else if has_flag (fflags f) FLAG_END_STREAM then set_state HalfClosedRemote x else x)
      else if ftype f = HEADERS then
        (let x = (if st x = Idle then set_state Open x else x) in
         if fcat f = HCAT_HEADERS \<and> \<not> expectFinalResponse x then x
         else if expectFinalResponse x then x
         else if has_flag (fflags f) FLAG_END_STREAM then set_state HalfClosedRemote x else x)
      else if ftype f = PUSH_PROMISE then
        (if st x = Idle then x else set_state ReservedRemote x)
      else if ftype f = GOAWAY then set_state Closed x
      else x)"

definition onFrameRecv :: "frame \<Rightarrow> 'ng session \<Rightarrow> 'ng session" where
  "onFrameRecv f s =
     (case findStream (fstream f) s of
        Some _ \<Rightarrow> updStream (fstream f) (frame_received f) s
      | None \<Rightarrow> s)"

definition onDataChunkRecv :: "32 word \<Rightarrow> byte list \<Rightarrow> 'ng session \<Rightarrow> 'ng session" where
  "onDataChunkRecv i chunk s =
     (let s = notify_state Loading s in
      case findStream i s of
        Some _ \<Rightarrow> updStream i (\<lambda>x. x\<lparr>rp := add_data chunk (rp x)\<rparr>) s
      | None \<Rightarrow> s)"

definition ready_hook :: "stream \<Rightarrow> 'ng session \<Rightarrow> 'ng session" where
  "ready_hook x s =
     (case getOnReadyCallback s of
        NoReady \<Rightarrow> s
      | ReadyThen sync \<Rightarrow>
          (let s = emit (ReadyEvent (rq x) (rp x)) s in if sync then stop s else s))"

definition onStreamClose :: "32 word \<Rightarrow> 'ng session \<Rightarrow> 'ng session" where
  "onStreamClose i s =
     removeStream i
       (case findStream i s of
          Some x \<Rightarrow> ready_hook x (notify_state Done (updStream i (set_state Closed) s))
        | None \<Rightarrow> s)"

definition processOutgoingFrame :: "frame \<Rightarrow> stream \<Rightarrow> stream" where
  "processOutgoingFrame f x =
     (if ftype f = HEADERS then
        x\<lparr>rq := fold (\<lambda>(n, v). add_header n \<lparr>hv_value = v, sensitive = False\<rparr>) (nva f) (rq x)\<rparr>
      else if ftype f = GOAWAY then set_state Closed x
      else x)"

definition beforeFrameSend :: "('ng option \<Rightarrow> 32 word \<Rightarrow> nat option) \<Rightarrow> frame \<Rightarrow> 'ng session \<Rightarrow> 'ng session" where
  "beforeFrameSend find_raw f s =
     (case findStream (fstream f) s of
        Some _ \<Rightarrow> updStream (fstream f) (processOutgoingFrame f) s
      | None \<Rightarrow>
          fst (addStream
            (processOutgoingFrame f (set_state Open (createPushStream find_raw (fstream f) s))) s))"

section \<open>Calls in sequence\<close>

text \<open>
  What nghttp2 calls while it takes in received bytes or hands out bytes to send, one callback at a time.
  Each of its functions may report any of them: \<open>nghttp2_session_mem_send\<close> reports the frames it is about
  to send and may also close streams.
\<close>

datatype ng_event =
    BeforeSend frame
  | BeginHeaders frame
  | HeaderField frame string string byte
  | FrameRecv frame
  | DataChunk "32 word" "byte list"
  | StreamClose "32 word"

fun handle :: "('ng option \<Rightarrow> 32 word \<Rightarrow> nat option) \<Rightarrow> ng_event \<Rightarrow> 'ng session \<Rightarrow> 'ng session" where
  "handle find_raw (BeforeSend f) s = beforeFrameSend find_raw f s"
| "handle find_raw (BeginHeaders f) s = onBeginHeaders find_raw f s"
| "handle find_raw (HeaderField f name v flags) s = onHeader f name v flags s"
| "handle find_raw (FrameRecv f) s = onFrameRecv f s"
| "handle find_raw (DataChunk i chunk) s = onDataChunkRecv i chunk s"
| "handle find_raw (StreamClose i) s = onStreamClose i s"

definition handle_all ::
  "('ng option \<Rightarrow> 32 word \<Rightarrow> nat option) \<Rightarrow> ng_event list \<Rightarrow> 'ng session \<Rightarrow> 'ng session" where
  "handle_all find_raw es s = fold (handle find_raw) es s"

end
