(* ===== verification/Session_Core.thy ===== *)
theory Session_Core
  imports Session_Callbacks
begin

text \<open>
  The operations of \<open>AbstractSession\<close> (\<open>abstractsession.cpp\<close>): setting up and connecting, the input
  and output loops with their completion handlers, submitting a request, the ping timer, going away.

  What lies outside the repository is the record \<open>platform\<close>, an argument of every operation that
  uses it: the functions of nghttp2 on a session object of type \<open>'ng\<close> (each returns the new object;
  \<open>mem_send\<close> and \<open>mem_recv\<close> also return the callbacks they issue, in order), \<open>inet_pton\<close>, and what is
  read through the pointer into the temporary string that \<open>submit\<close> passes for the method
  (\<open>dangling\<close>). Resolving, connecting and the TLS socket are represented by their outcome.

  The mutex \<open>insideCb\<close> is a flag: every operation runs on the thread of the io service, so finding it
  locked means that the thread holds it itself. Errors of the language are values of \<open>fault\<close>.
\<close>

section \<open>The platform\<close>

datatype send_result = SendNoMem | SendChunk "byte list"

record nv =
  nv_name :: string
  nv_value :: string
  nv_flags :: byte

record priority_spec =
  pri_stream :: "32 word"
  pri_weight :: "32 word"
  pri_exclusive :: bool

record 'ng platform =
  client_new :: "'ng option"
  mem_send :: "'ng \<Rightarrow> 'ng \<times> ng_event list \<times> send_result"
  mem_recv :: "'ng \<Rightarrow> byte list \<Rightarrow> 'ng \<times> ng_event list \<times> int"
  want_read :: "'ng \<Rightarrow> bool"
  want_write :: "'ng \<Rightarrow> bool"
  submit_settings :: "'ng \<Rightarrow> (string \<times> nat) list \<Rightarrow> 'ng \<times> int"
  submit_request :: "'ng \<Rightarrow> priority_spec \<Rightarrow> nv list \<Rightarrow> bool \<Rightarrow> 'ng \<times> int"
  submit_ping :: "'ng \<Rightarrow> 'ng \<times> int"
  submit_goaway :: "'ng \<Rightarrow> int \<Rightarrow> 'ng \<times> int"
  find_raw :: "'ng option \<Rightarrow> 32 word \<Rightarrow> nat option"
  ipv6_numeric_addr :: "string \<Rightarrow> bool"
  dangling :: "string \<Rightarrow> string"

section \<open>Setting up\<close>

definition http2_max_streams :: nat where "http2_max_streams = 20"

definition http2_max_frame :: nat where "http2_max_frame = 32768"

definition setupSession :: "'ng platform \<Rightarrow> 'ng session \<Rightarrow> 'ng session \<times> bool" where
  "setupSession p s =
     (if ng s \<noteq> None then (s, False)
      else case client_new p of None \<Rightarrow> (s, False) | Some g \<Rightarrow> (s\<lparr>ng := Some g\<rparr>, True))"

definition sendClientConnectionHeader :: "'ng platform \<Rightarrow> 'ng \<Rightarrow> 'ng \<times> int" where
  "sendClientConnectionHeader p g =
     submit_settings p g
       [(''MAX_CONCURRENT_STREAMS'', http2_max_streams), (''MAX_FRAME_SIZE'', http2_max_frame)]"

definition setOnReadyCallback :: "ready_callback \<Rightarrow> 'ng session \<Rightarrow> 'ng session" where
  "setOnReadyCallback cb s = (if cb \<noteq> NoReady then s\<lparr>on_ready := cb\<rparr> else s)"

definition setOnStopCallback :: "bool \<Rightarrow> 'ng session \<Rightarrow> 'ng session" where
  "setOnStopCallback cb s = s\<lparr>on_stop := cb\<rparr>"

definition setOnConnectCallback :: "bool \<Rightarrow> 'ng session \<Rightarrow> 'ng session" where
  "setOnConnectCallback cb s = s\<lparr>on_start := cb\<rparr>"

definition setOnStateChangeCallback :: "bool \<Rightarrow> 'ng session \<Rightarrow> 'ng session" where
  "setOnStateChangeCallback cb s = s\<lparr>on_state := cb\<rparr>"

definition setMimeOverridenType :: "string \<Rightarrow> 'ng session \<Rightarrow> 'ng session" where
  "setMimeOverridenType m s = s\<lparr>mime := m\<rparr>"

section \<open>Output\<close>

definition locked :: "('ng session \<Rightarrow> 'ng session \<times> 'a) \<Rightarrow> 'ng session \<Rightarrow> 'ng session \<times> 'a" where
  "locked f s = (case f (s\<lparr>insideCb := True\<rparr>) of (s, a) \<Rightarrow> (s\<lparr>insideCb := False\<rparr>, a))"

text \<open>Data that did not fit the write buffer last time goes first; the copy has no bounds check.\<close>

definition copy_pending :: "'ng session \<Rightarrow> fault + 'ng session" where
  "copy_pending s =
     (case data_pending s of
        None \<Rightarrow> Inr s
      | Some d \<Rightarrow>
          if length (wb s) + length d > wb_size then Inl BadAccess
          else Inr (s\<lparr>wb := wb s @ d, data_pending := None\<rparr>))"

lemma frame_handle [simp, frame_simps]:
  "ng (handle fr e s) = ng s" "wb (handle fr e s) = wb s" "writing (handle fr e s) = writing s"
  "data_pending (handle fr e s) = data_pending s" "ops (handle fr e s) = ops s"
  "insideCb (handle fr e s) = insideCb s" "stopped s \<Longrightarrow> stopped (handle fr e s)"
  "mime (handle fr e s) = mime s" "on_ready (handle fr e s) = on_ready s" "on_state (handle fr e s) = on_state s"
  by (cases e; simp add: beforeFrameSend_def onBeginHeaders_def onHeader_def onFrameRecv_def onDataChunkRecv_def
      onStreamClose_def ready_hook_def Let_def split: option.split ready_callback.split)+

lemma frame_handle_all [simp, frame_simps]:
  "ng (handle_all fr es s) = ng s" "wb (handle_all fr es s) = wb s"
  "writing (handle_all fr es s) = writing s" "data_pending (handle_all fr es s) = data_pending s"
  "ops (handle_all fr es s) = ops s" "insideCb (handle_all fr es s) = insideCb s"
  "stopped s \<Longrightarrow> stopped (handle_all fr es s)" "mime (handle_all fr es s) = mime s"
  "on_ready (handle_all fr es s) = on_ready s" "on_state (handle_all fr es s) = on_state s"
  unfolding handle_all_def by (induction es arbitrary: s) auto

text \<open>
  The loop over \<open>nghttp2_session_mem_send\<close>; the result tells whether the function returned early
  because memory was exhausted. It ends because every chunk that is copied fills the buffer further.
  The callbacks run inside: a stream that ends here is reported and may stop the session, which does not
  end the loop.
\<close>

function fill :: "'ng platform \<Rightarrow> 'ng \<Rightarrow> 'ng session \<Rightarrow> 'ng session \<times> bool" where
  "fill p g s =
     (case mem_send p g of (g', es, res) \<Rightarrow>
        let s = handle_all (find_raw p) es (s\<lparr>ng := Some g'\<rparr>) in
        case res of
          SendNoMem \<Rightarrow> (stop s, True)
        | SendChunk d \<Rightarrow>
            if d = [] then (s, False)
            else if length (wb s) + length d > wb_size then (s\<lparr>data_pending := Some d\<rparr>, False)
            else fill p g' (s\<lparr>wb := wb s @ d\<rparr>))"
  by pat_completeness auto

termination
  by (relation "measure (\<lambda>(p, g, s). wb_size - length (wb s))") (auto simp: neq_Nil_conv)

declare fill.simps [simp del]

text \<open>
  \<open>writeSocket\<close> starts an asynchronous write of the bytes in use, of at most the whole buffer, \<open>readSocket\<close>
  a read; starting one raises no exception.
\<close>

definition writeSocket :: "'ng session \<Rightarrow> 'ng session" where
  "writeSocket s = start_op (WriteOp (take (min (getWriteBufferSize s) wb_size) (getWriteBuffer s))) s"

definition readSocket :: "'ng session \<Rightarrow> 'ng session" where
  "readSocket s = start_op ReadOp s"

declare writeSocket_def [simp] readSocket_def [simp]

definition do_write :: "'ng platform \<Rightarrow> 'ng session \<Rightarrow> fault + 'ng session" where
  "do_write p s =
     (if isStopped s then Inr s
      else if writing s then Inr s
      else and_then (copy_pending s) (\<lambda>s.
        if insideCb s then Inl SelfDeadlock
        else case ng s of
          None \<Rightarrow> Inl NullDeref
        | Some g \<Rightarrow>
            (case locked (fill p g) s of
               (s, aborted) \<Rightarrow>
                 if aborted then Inr s
                 else if wb s = [] then Inr s
                 else Inr (writeSocket (s\<lparr>writing := True\<rparr>)))))"

text \<open>
  The completion handler of \<open>writeSocket\<close>; \<open>failed\<close> is whether \<open>ec\<close> is set and \<open>n\<close> the number of bytes
  \<open>async_write_some\<close> has written, which the handler ignores. Clearing the buffer with \<open>fill_n\<close> writes as many
  bytes as are in use, which an uninitialised length may put past its end.
\<close>

definition write_done :: "'ng platform \<Rightarrow> bool \<Rightarrow> nat \<Rightarrow> 'ng session \<Rightarrow> fault + 'ng session" where
  "write_done p failed n s =
     (if failed then Inr (stop s)
      else if streams s \<noteq> [] \<and>
          (case table_find 0 (streams s) of None \<Rightarrow> False | Some x \<Rightarrow> st x = Closed) then Inr (stop s)
      else if length (wb s) > wb_size then Inl BadAccess
      else do_write p (s\<lparr>wb := [], writing := False\<rparr>))"

section \<open>Input\<close>

definition do_read :: "'ng session \<Rightarrow> 'ng session" where
  "do_read s = (if isStopped s then s else readSocket s)"

definition shouldStop :: "'ng platform \<Rightarrow> 'ng session \<Rightarrow> fault + bool" where
  "shouldStop p s =
     (if writing s then Inr False
      else case ng s of
        None \<Rightarrow> Inl NullDeref
      | Some g \<Rightarrow> Inr (\<not> want_read p g \<and> \<not> want_write p g))"

text \<open>The completion handler of \<open>readSocket\<close>: \<open>buf\<close> holds the transferred bytes.\<close>

definition read_done :: "'ng platform \<Rightarrow> bool \<Rightarrow> byte list \<Rightarrow> 'ng session \<Rightarrow> fault + 'ng session" where
  "read_done p failed buf s =
     (if length buf = 0 then Inr s
      else if failed then Inr (stop s)
      else if insideCb s then Inl SelfDeadlock
      else case ng s of
        None \<Rightarrow> Inl NullDeref
      | Some g \<Rightarrow>
          (case mem_recv p g buf of (g', es, rv) \<Rightarrow>
             let s = fst (locked (\<lambda>s. (handle_all (find_raw p) es (s\<lparr>ng := Some g'\<rparr>), ())) s) in
             if rv \<noteq> int (length buf) then Inr (stop s)
             else
               and_then (do_write p s) (\<lambda>s.
               and_then (shouldStop p s) (\<lambda>halt.
                 Inr (if halt then stop s else do_read s)))))"

section \<open>Ping\<close>

definition startPing :: "'ng session \<Rightarrow> 'ng session" where
  "startPing s = (start_op PingOp s)\<lparr>ping_started := True\<rparr>"

definition submitPing :: "'ng platform \<Rightarrow> bool \<Rightarrow> 'ng session \<Rightarrow> fault + 'ng session" where
  "submitPing p aborted s =
     (if isStopped s \<or> aborted then Inr s
      else case ng s of
        None \<Rightarrow> Inl NullDeref
      | Some g \<Rightarrow> Inr (s\<lparr>ng := Some (fst (submit_ping p g))\<rparr>))"

text \<open>The handler of the ping timer; \<open>aborted\<close>: the wait was cancelled.\<close>

definition ping_fired :: "'ng platform \<Rightarrow> bool \<Rightarrow> 'ng session \<Rightarrow> fault + 'ng session" where
  "ping_fired p aborted s =
     and_then (submitPing p aborted s) (\<lambda>s.
     and_then (do_write p s) (\<lambda>s. Inr (startPing s)))"

section \<open>Connecting\<close>

definition onSocketConnected :: "'ng platform \<Rightarrow> 'ng session \<Rightarrow> fault + 'ng session" where
  "onSocketConnected p s =
     (case setupSession p (setStopped False s) of
        (s, False) \<Rightarrow> Inr s
      | (s, True) \<Rightarrow>
          (case ng s of
             None \<Rightarrow> Inl NullDeref
           | Some g \<Rightarrow>
               and_then (do_write p (s\<lparr>ng := Some (fst (sendClientConnectionHeader p g))\<rparr>)) (\<lambda>s.
                 Inr (startPing (do_read s)))))"

text \<open>
  \<open>resolve_failed\<close> is the outcome of the resolver; \<open>start_connect\<close> is the virtual \<open>startConnect\<close>, which
  returns the session and whether \<open>ec\<close> is set.
\<close>

definition startResolve ::
  "'ng platform \<Rightarrow> bool \<Rightarrow> ('ng session \<Rightarrow> 'ng session \<times> bool) \<Rightarrow> 'ng session \<Rightarrow> fault + 'ng session" where
  "startResolve p resolve_failed start_connect s =
     (if resolve_failed then Inr (stop s)
      else case start_connect s of
        (s, True) \<Rightarrow> Inr (stop s)
      | (s, False) \<Rightarrow>
          and_then (onSocketConnected p s) (\<lambda>s. Inr (if getOnConnectCallback s then emit ConnectEvent s else s)))"

definition startReadTimer :: "'ng session \<Rightarrow> 'ng session" where
  "startReadTimer s = start_op DeadlineOp s"

text \<open>
  Waiting for a connection moves the deadline, which cancels the waits that were started (their handler
  still runs), and blocks for the connect timeout, which is 0 seconds; nothing in the session changes.
\<close>

definition startWaitConnectionTimer :: "'ng session \<Rightarrow> 'ng session" where
  "startWaitConnectionTimer s = s"

definition deadline_fired :: "'ng session \<Rightarrow> 'ng session" where
  "deadline_fired s = s\<lparr>stopped := True\<rparr>"

section \<open>Submitting a request\<close>

datatype errc = NoError | Invalid_argument

definition make_nv_ls :: "string \<Rightarrow> string \<Rightarrow> nv" where
  "make_nv_ls name v = \<lparr>nv_name = name, nv_value = v, nv_flags = 2\<rparr>"

definition make_nv_internal :: "string \<Rightarrow> string \<Rightarrow> bool \<Rightarrow> byte \<Rightarrow> nv" where
  "make_nv_internal name v no_index flags =
     \<lparr>nv_name = name, nv_value = v, nv_flags = flags OR (if no_index then 1 else 0)\<rparr>"

definition make_nv :: "string \<Rightarrow> string \<Rightarrow> bool \<Rightarrow> nv" where
  "make_nv name v no_index = make_nv_internal name v no_index 0"

text \<open>
  The scheme, the authority and the path a URL is submitted with. The authority is computed and not
  used; the percent-decoded path is overwritten with the raw one.
\<close>

definition authority :: "'ng platform \<Rightarrow> http_parser_url \<Rightarrow> string \<Rightarrow> string" where
  "authority p u url =
     (let host = copy_url_component [] u UF_HOST url;
          host = (if ipv6_numeric_addr p host then ''['' @ host @ '']'' else host)
      in if has_field u UF_PORT then host @ '':'' @ utos (unat (port u)) else host)"

definition request_path :: "http_parser_url \<Rightarrow> string \<Rightarrow> string" where
  "request_path u url =
     (let raw = copy_url_component [] u UF_PATH url; raw = (if raw = [] then ''/'' else raw) in
      if has_field u UF_QUERY then raw @ ''?'' @ copy_url_component [] u UF_QUERY url else raw)"

definition request_nva ::
  "'ng platform \<Rightarrow> http_parser_url \<Rightarrow> string \<Rightarrow> string \<Rightarrow> fields \<Rightarrow> nv list" where
  "request_nva p u url method hdr =
     [make_nv_ls '':method'' (dangling p method),
      make_nv_ls '':scheme'' (copy_url_component [] u UF_SCHEMA url),
      make_nv_ls '':path'' (request_path u url)] @
     map (\<lambda>(k, v). make_nv k (hv_value v) (sensitive v)) hdr"

text \<open>
  \<open>write\<close> under \<open>insideCb.try_lock()\<close>: when the lock is free, \<open>submit\<close> holds it while it calls
  \<open>write\<close>, which takes it again.
\<close>

definition try_write :: "'ng platform \<Rightarrow> 'ng session \<Rightarrow> fault + 'ng session" where
  "try_write p s =
     (if insideCb s then Inr s
      else and_then (do_write p (s\<lparr>insideCb := True\<rparr>)) (\<lambda>s. Inr (s\<lparr>insideCb := False\<rparr>)))"

definition register_stream :: "'ng platform \<Rightarrow> int \<Rightarrow> 'ng session \<Rightarrow> 'ng session" where
  "register_stream p i s =
     s\<lparr>streams := fst (try_emplace (word_of_int i)
         (new_stream (word_of_int i) (find_raw p (ng s) (word_of_int i))) (streams s))\<rparr>"

definition submit ::
  "'ng platform \<Rightarrow> string \<Rightarrow> string \<Rightarrow> fields \<Rightarrow> 32 word \<Rightarrow> 32 word \<Rightarrow> bool \<Rightarrow> bool \<Rightarrow> 'ng session \<Rightarrow>
     fault + 'ng session \<times> errc \<times> int" where
  "submit p url method hdr sid weight exclusive provider s =
     (if isStopped s then Inr (s, NoError, 0)
      else case http_parser_parse_url url False (parser s) of
        (u, rc) \<Rightarrow>
          let s = s\<lparr>parser := u\<rparr> in
          if rc \<noteq> 0 then Inr (s, Invalid_argument, -1)
          else if \<not> has_field u UF_SCHEMA \<or> \<not> has_field u UF_HOST then Inr (s, Invalid_argument, -1)
          else case ng s of
            None \<Rightarrow> Inl NullDeref
          | Some g \<Rightarrow>
              (case submit_request p g \<lparr>pri_stream = sid, pri_weight = weight, pri_exclusive = exclusive\<rparr>
                      (request_nva p u url method hdr) provider of
                 (g', i) \<Rightarrow>
                   let s = s\<lparr>ng := Some g'\<rparr> in
                   if i < 0 then Inr (s, NoError, 0)
                   else and_then (try_write p s) (\<lambda>s. Inr (register_stream p i s, NoError, i))))"

section \<open>Going away\<close>

fun goAway_loop :: "'ng platform \<Rightarrow> streams \<Rightarrow> 'ng \<Rightarrow> 'ng" where
  "goAway_loop p [] g = g"
| "goAway_loop p ((k, x) # m) g = goAway_loop p m (fst (submit_goaway p g (get_id x)))"

definition goAway :: "'ng platform \<Rightarrow> 'ng session \<Rightarrow> fault + 'ng session" where
  "goAway p s =
     (case ng s of
        Some g \<Rightarrow> Inr (s\<lparr>ng := Some (goAway_loop p (streams s) g)\<rparr>)
      | None \<Rightarrow> if streams s = [] then Inr s else Inl NullDeref)"

definition goAway_stream :: "'ng platform \<Rightarrow> 32 word \<Rightarrow> 'ng session \<Rightarrow> fault + 'ng session" where
  "goAway_stream p i s =
     (case findStream i s of
        None \<Rightarrow> Inr s
      | Some _ \<Rightarrow>
          (case ng s of
             None \<Rightarrow> Inl NullDeref
           | Some g \<Rightarrow> Inr (s\<lparr>ng := Some (fst (submit_goaway p g (sint i)))\<rparr>)))"

end
