(* ===== verification/Scope_Guard.thy ===== *)
theory Scope_Guard
  imports Session_Core
begin

text \<open>
  The scope guard \<open>Defer\<close> (\<open>utilities.h\<close>) and its use in \<open>setupSession\<close>: nghttp2's table of callbacks is
  freed on every path, once, and what is installed in it. A guard is the stored function, empty after the
  guard was moved from (as the standard library leaves it); calling an empty function object at the end of
  the scope throws out of a destructor.
\<close>

section \<open>The guard\<close>

type_synonym 'w deferred = "('w \<Rightarrow> 'w) option"

definition defer_call :: "('a \<Rightarrow> 'w \<Rightarrow> 'w) \<Rightarrow> 'a \<Rightarrow> 'w deferred" where
  "defer_call f a = Some (f a)"

text \<open>The moving constructor: what is left of the old guard, and the new one.\<close>

definition move_deferred :: "'w deferred \<Rightarrow> 'w deferred \<times> 'w deferred" where
  "move_deferred g = (None, g)"

definition end_deferred :: "'w deferred \<Rightarrow> 'w \<Rightarrow> fault + 'w" where
  "end_deferred g w = (case g of None \<Rightarrow> Inl BadCall | Some f \<Rightarrow> Inr (f w))"

text \<open>A block with a guard: the guard acts when the block is left, with the value that is returned.\<close>

definition guarded :: "'w deferred \<Rightarrow> ('w \<Rightarrow> 'w \<times> 'a) \<Rightarrow> 'w \<Rightarrow> fault + 'w \<times> 'a" where
  "guarded g block w =
     (case block w of (w, a) \<Rightarrow> and_then (end_deferred g w) (\<lambda>w. Inr (w, a)))"

lemma guarded_call [simp]: "guarded (defer_call f a) block w = Inr (f a (fst (block w)), snd (block w))"
  by (simp add: guarded_def defer_call_def end_deferred_def split: prod.split)

text \<open>Moving a guard passes its action on; the end of the scope of the old one is a fault.\<close>

lemma moved_guard:
  "snd (move_deferred g) = g" "end_deferred (fst (move_deferred g)) w = Inl BadCall"
  by (simp_all add: move_deferred_def end_deferred_def)

section \<open>The table of callbacks\<close>

datatype callback =
    OnBeginHeaders | OnHeader | OnFrameRecv | OnDataChunkRecv | OnStreamClose | BeforeFrameSend | OnSend

text \<open>
  The functions of nghttp2 on tables of callbacks, on a memory of type \<open>'w\<close>: allocating a table, setting
  one callback in it, freeing it, and making a session object with the callbacks of a table.
\<close>

record ('w, 't, 'ng) table_api =
  table_new :: "'w \<Rightarrow> 'w \<times> 't"
  table_set :: "'t \<Rightarrow> callback \<Rightarrow> 'w \<Rightarrow> 'w"
  table_del :: "'t \<Rightarrow> 'w \<Rightarrow> 'w"
  client_from :: "'t \<Rightarrow> 'w \<Rightarrow> 'w \<times> 'ng option"

definition register_callbacks :: "('w, 't, 'ng) table_api \<Rightarrow> 't \<Rightarrow> 'w \<Rightarrow> 'w" where
  "register_callbacks api t w =
     (let w = table_set api t OnBeginHeaders w;
          w = table_set api t OnHeader w;
          w = table_set api t OnFrameRecv w;
          w = table_set api t OnDataChunkRecv w;
          w = table_set api t OnStreamClose w
      in table_set api t BeforeFrameSend w)"

definition setup_scoped ::
  "('w, 't, 'ng) table_api \<Rightarrow> 'w \<times> 'ng session \<Rightarrow> fault + ('w \<times> 'ng session) \<times> bool" where
  "setup_scoped api ws =
     (case ws of (w, s) \<Rightarrow>
        if ng s \<noteq> None then Inr ((w, s), False)
        else case table_new api w of
          (w, t) \<Rightarrow>
            guarded (defer_call (\<lambda>t (w, s). (table_del api t w, s)) t)
              (\<lambda>(w, s).
                case client_from api t (register_callbacks api t w) of
                  (w, None) \<Rightarrow> ((w, s), False)
                | (w, Some g) \<Rightarrow> ((w, s\<lparr>ng := Some g\<rparr>), True)) (w, s))"

text \<open>What the documentation of nghttp2 says of the tables that are allocated.\<close>

definition counts_tables :: "('w, 't, 'ng) table_api \<Rightarrow> ('w \<Rightarrow> 't set) \<Rightarrow> bool" where
  "counts_tables api live \<longleftrightarrow>
     (\<forall>w. snd (table_new api w) \<notin> live w \<and> live (fst (table_new api w)) = insert (snd (table_new api w)) (live w)) \<and>
     (\<forall>t c w. live (table_set api t c w) = live w) \<and>
     (\<forall>t w. live (table_del api t w) = live w - {t}) \<and>
     (\<forall>t w. live (fst (client_from api t w)) = live w)"

text \<open>
  Setting up returns, leaves no table of callbacks behind, whether nghttp2 gives a session object or not,
  and does to the session what \<open>setupSession\<close> does.
\<close>

lemma setup_frees_its_table:
  assumes "counts_tables api live" and "\<And>t w. snd (client_from api t w) = client_new p"
  shows "\<exists>w'. setup_scoped api (w, s) = Inr ((w', fst (setupSession p s)), snd (setupSession p s)) \<and>
    live w' = live w"
proof (cases "ng s = None")
  case True
  obtain w1 t where new: "table_new api w = (w1, t)"
    by (metis prod.exhaust)
  have live: "live w1 = insert t (live w)" "t \<notin> live w"
    using assms(1) new unfolding counts_tables_def by (metis fst_conv snd_conv)+
  have kept: "live (fst (client_from api t (register_callbacks api t v))) = live v"
      "live (table_del api t v) = live v - {t}" for v
    using assms(1) by (simp_all add: counts_tables_def register_callbacks_def)
  obtain w2 where client: "client_from api t (register_callbacks api t w1) = (w2, client_new p)"
    using assms(2) by (metis prod.collapse)
  then have "live (table_del api t w2) = live w"
    using kept(1) [of w1] kept(2) [of w2] live by simp
  moreover have "setup_scoped api (w, s) =
      Inr ((table_del api t w2, fst (setupSession p s)), snd (setupSession p s))"
    using True new client by (simp add: setup_scoped_def setupSession_def split: option.split)
  ultimately show ?thesis
    by blast
qed (simp add: setup_scoped_def setupSession_def)

end
