(* ===== verification/Session_Run.thy ===== *)
theory Session_Run
  imports Session_Core
begin

text \<open>
  Whole runs of a connected session: completions of its asynchronous operations, requests and
  shutdown, in any order. The bytes nghttp2 has generated reach the socket unchanged and in order, as
  long as every write is complete, and the handlers never leave the language.
\<close>

section \<open>What is known of nghttp2\<close>

text \<open>
  \<open>out g\<close> is everything the session object has handed out for sending so far: only \<open>mem_send\<close> extends
  it, by the chunk it returns. A chunk is at most as long as the write buffer (nghttp2 returns one
  frame at a time, of at most 16384 bytes and its header).
\<close>

definition counts_output :: "'ng platform \<Rightarrow> ('ng \<Rightarrow> byte list) \<Rightarrow> bool" where
  "counts_output p out \<longleftrightarrow>
     (\<forall>g g' fs. mem_send p g = (g', fs, SendNoMem) \<longrightarrow> out g' = out g) \<and>
     (\<forall>g g' fs d. mem_send p g = (g', fs, SendChunk d) \<longrightarrow> out g' = out g @ d) \<and>
     (\<forall>g buf. out (fst (mem_recv p g buf)) = out g) \<and>
     (\<forall>g iv. out (fst (submit_settings p g iv)) = out g) \<and>
     (\<forall>g pri nvs prov. out (fst (submit_request p g pri nvs prov)) = out g) \<and>
     (\<forall>g. out (fst (submit_ping p g)) = out g) \<and>
     (\<forall>g i. out (fst (submit_goaway p g i)) = out g)"

definition chunk_bound :: "'ng platform \<Rightarrow> bool" where
  "chunk_bound p \<longleftrightarrow> (\<forall>g g' fs d. mem_send p g = (g', fs, SendChunk d) \<longrightarrow> length d \<le> wb_size)"

lemma counts_outputD:
  assumes "counts_output p out"
  shows "mem_send p g = (g', fs, SendNoMem) \<Longrightarrow> out g' = out g"
    and "mem_send p g = (g', fs, SendChunk d) \<Longrightarrow> out g' = out g @ d"
    and "out (fst (mem_recv p g buf)) = out g" and "out (fst (submit_settings p g iv)) = out g"
    and "out (fst (submit_request p g pri nvs prov)) = out g" and "out (fst (submit_ping p g)) = out g"
    and "out (fst (submit_goaway p g i)) = out g"
  using assms unfolding counts_output_def by blast+

section \<open>The output loop\<close>

definition pending_bytes :: "'ng session \<Rightarrow> byte list" where
  "pending_bytes s = (case data_pending s of None \<Rightarrow> [] | Some d \<Rightarrow> d)"

definition backlog :: "'ng session \<Rightarrow> byte list" where
  "backlog s = wb s @ pending_bytes s"

definition filled ::
  "('ng \<Rightarrow> byte list) \<Rightarrow> 'ng \<Rightarrow> 'ng session \<Rightarrow> 'ng session \<Rightarrow> bool \<Rightarrow> bool" where
  "filled out g s s' aborted \<longleftrightarrow>
     (\<exists>g' new. ng s' = Some g' \<and> out g' = out g @ new \<and> backlog s' = wb s @ new) \<and>
     length (wb s') \<le> wb_size \<and> length (pending_bytes s') \<le> wb_size \<and>
     (aborted \<or> stopped s \<longrightarrow> stopped s') \<and> writing s' = writing s \<and> ops s' = ops s \<and>
     (\<not> aborted \<longrightarrow> wb s' = [] \<longrightarrow> data_pending s' = None)"

lemma fill_output:
  "counts_output p out \<Longrightarrow> chunk_bound p \<Longrightarrow> fill p g s = (s', aborted) \<Longrightarrow>
   data_pending s = None \<Longrightarrow> length (wb s) \<le> wb_size \<Longrightarrow> filled out g s s' aborted"
proof (induction p g s arbitrary: s' rule: fill.induct)
  case (1 p g s)
  note out_law = counts_outputD [OF "1.prems"(1)]
  obtain g' fs res where send: "mem_send p g = (g', fs, res)"
    by (metis prod.exhaust)
  define t where "t = handle_all (find_raw p) fs (s\<lparr>ng := Some g'\<rparr>)"
  have t: "ng t = Some g'" "wb t = wb s" "data_pending t = None" "writing t = writing s" "ops t = ops s"
      "stopped s \<Longrightarrow> stopped t"
    using "1.prems"(4) by (simp_all add: t_def)
  show ?case
  proof (cases res)
    case SendNoMem
    then have "out g' = out g" and "s' = stop t" and "aborted"
      using out_law(1) send "1.prems"(3) by (auto simp: fill.simps [of p g s] t_def Let_def)
    then show ?thesis
      using t "1.prems"(5) by (auto simp: filled_def backlog_def pending_bytes_def)
  next
    case (SendChunk d)
    have out: "out g' = out g @ d" and bound: "length d \<le> wb_size"
      using "1.prems"(2) send SendChunk out_law(2) by (auto simp: chunk_bound_def)
    have step: "fill p g s =
        (if d = [] then (t, False)
         else if length (wb t) + length d > wb_size then (t\<lparr>data_pending := Some d\<rparr>, False)
         else fill p g' (t\<lparr>wb := wb t @ d\<rparr>))"
      by (simp add: fill.simps [of p g s] send SendChunk t_def Let_def)
    consider "d = []" | "d \<noteq> []" "length (wb t) + length d > wb_size"
      | "d \<noteq> []" "length (wb t) + length d \<le> wb_size"
      by linarith
    then show ?thesis
    proof cases
      case 1
      then show ?thesis
        using step "1.prems" t out by (auto simp: filled_def backlog_def pending_bytes_def)
    next
      case 2
      moreover from 2 have "wb s \<noteq> []"
        using bound t(2) by auto
      ultimately show ?thesis
        using step "1.prems" t out bound by (auto simp: filled_def backlog_def pending_bytes_def)
    next
      case 3
      have "filled out g' (t\<lparr>wb := wb t @ d\<rparr>) s' aborted"
        using "1.IH" [OF send [symmetric] refl t_def SendChunk 3(1)] 3 step "1.prems" t by simp
      then show ?thesis
        using t out by (auto simp: filled_def)
    qed
  qed
qed

lemma locked_fill:
  assumes "counts_output p out" and "chunk_bound p" and "locked (fill p g) s = (s', aborted)"
    and "data_pending s = None" and "length (wb s) \<le> wb_size"
  shows "filled out g s s' aborted" and "\<not> insideCb s'"
proof -
  obtain t where t: "fill p g (s\<lparr>insideCb := True\<rparr>) = (t, aborted)" and s': "s' = t\<lparr>insideCb := False\<rparr>"
    using assms(3) by (auto simp: locked_def split: prod.splits)
  have "filled out g (s\<lparr>insideCb := True\<rparr>) t aborted"
    using assms(1,2) t by (rule fill_output) (use assms in simp_all)
  then show "filled out g s s' aborted" and "\<not> insideCb s'"
    by (auto simp: s' filled_def backlog_def pending_bytes_def)
qed

section \<open>The invariant of a run\<close>

fun writes_of :: "async_op list \<Rightarrow> byte list list" where
  "writes_of [] = []"
| "writes_of (WriteOp b # as) = b # writes_of as"
| "writes_of (ReadOp # as) = writes_of as"
| "writes_of (PingOp # as) = writes_of as"
| "writes_of (DeadlineOp # as) = writes_of as"

lemma writes_of_append [simp]: "writes_of (xs @ ys) = writes_of xs @ writes_of ys"
  by (induction xs rule: writes_of.induct) auto

lemma writes_of_split:
  assumes "writes_of as = b # bs"
  shows "\<exists>xs ys. as = xs @ WriteOp b # ys"
proof -
  have "WriteOp b \<in> set as"
    using assms by (induction as rule: writes_of.induct) auto
  then show ?thesis by (rule split_list)
qed

text \<open>
  Between two handlers: the lock is free, the write buffer and the pending data are no longer than the
  buffer; and unless the session is stopped, what nghttp2 has handed out is the bytes of the writes completed
  so far (\<open>wire\<close>) plus the write buffer plus the pending data, there is exactly one write operation under way
  if \<open>writing\<close> is set and it is about the write buffer, and otherwise nothing is left to write. \<open>between\<close> is
  the same without the last clause.
\<close>

definition between :: "('ng \<Rightarrow> byte list) \<Rightarrow> byte list \<Rightarrow> 'ng session \<Rightarrow> bool" where
  "between out wire s \<longleftrightarrow>
     \<not> insideCb s \<and> ng s \<noteq> None \<and> length (wb s) \<le> wb_size \<and> length (pending_bytes s) \<le> wb_size \<and>
     (stopped s \<or>
        out (the (ng s)) = wire @ backlog s \<and> (writing s \<longleftrightarrow> wb s \<noteq> []) \<and>
        writes_of (ops s) = (if writing s then [wb s] else []))"

definition run_ok :: "('ng \<Rightarrow> byte list) \<Rightarrow> byte list \<Rightarrow> 'ng session \<Rightarrow> bool" where
  "run_ok out wire s \<longleftrightarrow> between out wire s \<and> (\<not> stopped s \<longrightarrow> \<not> writing s \<longrightarrow> data_pending s = None)"

lemma run_ok_between: "run_ok out wire s \<Longrightarrow> between out wire s"
  by (simp add: run_ok_def)

lemma run_ok_stop: "between out wire s \<Longrightarrow> run_ok out wire' (stop s)"
  by (simp add: run_ok_def between_def pending_bytes_def)

lemma do_write_ok:
  assumes "counts_output p out" and "chunk_bound p" and "between out wire s"
  shows "\<exists>s'. do_write p s = Inr s' \<and> run_ok out wire s'"
proof (cases "stopped s \<or> writing s")
  case True
  then show ?thesis
    using assms(3) by (auto simp: do_write_def run_ok_def)
next
  case False
  obtain g where g: "ng s = Some g" "out g = wire @ pending_bytes s" and s: "\<not> insideCb s" "wb s = []"
      "length (pending_bytes s) \<le> wb_size" "writes_of (ops s) = []"
    using assms(3) False by (auto simp: between_def backlog_def)
  define t where "t = s\<lparr>wb := pending_bytes s, data_pending := None\<rparr>"
  have copy: "copy_pending s = Inr t"
    using s by (cases "data_pending s") (simp_all add: copy_pending_def t_def pending_bytes_def)
  obtain u aborted where run: "locked (fill p g) t = (u, aborted)"
    by (metis prod.exhaust)
  have u: "filled out g t u aborted" "\<not> insideCb u"
    using locked_fill [OF assms(1,2) run] s by (simp_all add: t_def)
  have result: "do_write p s = Inr (if aborted \<or> wb u = [] then u
      else start_op (WriteOp (wb u)) (u\<lparr>writing := True\<rparr>))"
    using False copy run g s u(1) by (simp add: do_write_def t_def filled_def min_absorb1)
  show ?thesis
    unfolding result
    using u False g s by (auto simp: run_ok_def between_def filled_def start_op_def backlog_def
        pending_bytes_def t_def)
qed

section \<open>The completion handlers\<close>

lemma between_start [simp]:
  "between out wire (start_op ReadOp s) = between out wire s"
  "between out wire (start_op PingOp s) = between out wire s"
  "run_ok out wire (start_op ReadOp s) = run_ok out wire s"
  "run_ok out wire (start_op PingOp s) = run_ok out wire s"
  by (simp_all add: run_ok_def between_def start_op_def backlog_def pending_bytes_def)

lemma run_ok_do_read [simp]: "run_ok out wire (do_read s) = run_ok out wire s"
  by (simp add: do_read_def)

lemma run_ok_startPing [simp]: "run_ok out wire (startPing s) = run_ok out wire s"
  by (simp add: startPing_def run_ok_def between_def start_op_def backlog_def pending_bytes_def)

text \<open>Taking a completed operation off the list.\<close>

lemma run_ok_take:
  assumes "run_ok out wire s" and "ops s = xs @ a # ys" and "\<And>b. a \<noteq> WriteOp b"
  shows "run_ok out wire (s\<lparr>ops := xs @ ys\<rparr>)"
proof -
  have "writes_of (xs @ a # ys) = writes_of (xs @ ys)"
    using assms(3) by (cases a) auto
  then show ?thesis
    using assms(1,2) by (auto simp: run_ok_def between_def backlog_def pending_bytes_def)
qed

lemma take_write:
  assumes "run_ok out wire s" and "ops s = xs @ WriteOp b # ys" and "\<not> stopped s"
  shows "writing s" and "wb s = b" and "writes_of (xs @ ys) = []"
  using assms by (auto simp: run_ok_def between_def split: if_splits)
     (metis append_is_Nil_conv append_Cons append_self_conv2 list.distinct(1) list.inject
       append_eq_Cons_conv)+

lemma write_done_ok:
  assumes "counts_output p out" and "chunk_bound p" and "run_ok out wire s"
    and "ops s = xs @ WriteOp b # ys"
  shows "\<exists>s'. write_done p failed n (s\<lparr>ops := xs @ ys\<rparr>) = Inr s' \<and> run_ok out (wire @ b) s'"
proof -
  let ?t = "s\<lparr>ops := xs @ ys\<rparr>"
  have base: "\<not> insideCb s" "ng s \<noteq> None" "length (wb s) \<le> wb_size" "length (pending_bytes s) \<le> wb_size"
    using assms(3) by (auto simp: run_ok_def between_def)
  have after: "between out (wire @ b) (?t\<lparr>wb := [], writing := False\<rparr>)"
  proof (cases "stopped s")
    case True
    then show ?thesis
      using base by (simp add: between_def pending_bytes_def)
  next
    case False
    then show ?thesis
      using take_write [OF assms(3,4) False] base assms(3)
      by (auto simp: run_ok_def between_def backlog_def pending_bytes_def)
  qed
  have stop_ok: "run_ok out (wire @ b) (stop ?t)"
    using base by (simp add: run_ok_def between_def pending_bytes_def)
  obtain s' where "do_write p (?t\<lparr>wb := [], writing := False\<rparr>) = Inr s'" "run_ok out (wire @ b) s'"
    using do_write_ok [OF assms(1,2) after] by blast
  then show ?thesis
    using stop_ok base(3) by (auto simp: write_done_def)
qed

lemma read_done_ok:
  assumes "counts_output p out" and "chunk_bound p" and "run_ok out wire s"
    and "ops s = xs @ ReadOp # ys"
  shows "\<exists>s'. read_done p failed buf (s\<lparr>ops := xs @ ys\<rparr>) = Inr s' \<and> run_ok out wire s'"
proof -
  let ?t = "s\<lparr>ops := xs @ ys\<rparr>"
  have t: "run_ok out wire ?t"
    using run_ok_take [OF assms(3,4)] by simp
  then obtain g where g: "ng s = Some g" and free: "\<not> insideCb s"
    by (auto simp: run_ok_def between_def)
  obtain g' es rv where recv: "mem_recv p g buf = (g', es, rv)"
    by (metis prod.exhaust)
  have out: "out g' = out g"
    using counts_outputD(3) [OF assms(1), of g buf] by (simp add: recv)
  define u where "u = fst (locked (\<lambda>s. (handle_all (find_raw p) es (s\<lparr>ng := Some g'\<rparr>), ())) ?t)"
  have "between out wire u"
    using run_ok_between [OF t] g out
    by (auto simp: u_def locked_def between_def backlog_def pending_bytes_def)
  then obtain v where v: "do_write p u = Inr v" "run_ok out wire v"
    using do_write_ok [OF assms(1,2)] by blast
  have "\<exists>h. shouldStop p v = Inr h"
    using v(2) by (auto simp: shouldStop_def run_ok_def between_def)
  then obtain h where h: "shouldStop p v = Inr h" ..
  have "run_ok out wire (stop u)" "run_ok out wire (stop ?t)" "run_ok out wire (if h then stop v else do_read v)"
    using run_ok_stop [OF \<open>between out wire u\<close>] run_ok_stop [OF run_ok_between [OF t]]
      run_ok_stop [OF run_ok_between [OF v(2)]] v(2) by simp_all
  then show ?thesis
    using t v h recv g free by (auto simp: read_done_def u_def [symmetric])
qed

lemma submitPing_ok:
  assumes "counts_output p out" and "between out wire s"
  shows "\<exists>s'. submitPing p aborted s = Inr s' \<and> between out wire s'"
proof -
  obtain g where g: "ng s = Some g"
    using assms(2) by (auto simp: between_def)
  then show ?thesis
    using assms(2) counts_outputD(6) [OF assms(1), of g]
    by (auto simp: submitPing_def between_def backlog_def pending_bytes_def)
qed

lemma ping_fired_ok:
  assumes "counts_output p out" and "chunk_bound p" and "run_ok out wire s"
    and "ops s = xs @ PingOp # ys"
  shows "\<exists>s'. ping_fired p aborted (s\<lparr>ops := xs @ ys\<rparr>) = Inr s' \<and> run_ok out wire s'"
proof -
  have "run_ok out wire (s\<lparr>ops := xs @ ys\<rparr>)"
    using run_ok_take [OF assms(3,4)] by simp
  then obtain t where "submitPing p aborted (s\<lparr>ops := xs @ ys\<rparr>) = Inr t" "between out wire t"
    using submitPing_ok [OF assms(1) run_ok_between] by blast
  then show ?thesis
    using do_write_ok [OF assms(1,2), of wire t] by (auto simp: ping_fired_def)
qed

section \<open>Requests and shutdown\<close>

lemma between_ng:
  "between out wire s \<Longrightarrow> (\<And>g. ng s = Some g \<Longrightarrow> out g' = out g) \<Longrightarrow> between out wire (s\<lparr>ng := Some g'\<rparr>)"
  by (auto simp: between_def backlog_def pending_bytes_def)

lemma run_ok_ng:
  "run_ok out wire s \<Longrightarrow> (\<And>g. ng s = Some g \<Longrightarrow> out g' = out g) \<Longrightarrow> run_ok out wire (s\<lparr>ng := Some g'\<rparr>)"
  using between_ng [of out wire s g'] by (auto simp: run_ok_def)

lemma run_ok_frame [simp]:
  "run_ok out wire (s\<lparr>parser := u\<rparr>) = run_ok out wire s"
  "run_ok out wire (s\<lparr>streams := m\<rparr>) = run_ok out wire s"
  "run_ok out wire (emit e s) = run_ok out wire s"
  by (simp_all add: run_ok_def between_def backlog_def pending_bytes_def)

lemma try_write_ok:
  assumes "run_ok out wire s" and "try_write p s = Inr s'"
  shows "s' = s" and "stopped s \<or> writing s"
proof -
  have free: "\<not> insideCb s"
    using assms(1) by (simp add: run_ok_def between_def)
  have "stopped s \<or> writing s"
    using assms(2) free
    by (auto simp: try_write_def do_write_def and_then_Inr_iff copy_pending_def
        split: if_splits option.splits)
  moreover from this have "do_write p (s\<lparr>insideCb := True\<rparr>) = Inr (s\<lparr>insideCb := True\<rparr>)"
    by (auto simp: do_write_def)
  then have "s' = s\<lparr>insideCb := False\<rparr>"
    using assms(2) free by (simp add: try_write_def)
  then have "s' = s"
    using free by (cases s) simp
  ultimately show "s' = s" and "stopped s \<or> writing s"
    by simp_all
qed

lemma submit_ok:
  assumes "counts_output p out" and "run_ok out wire s"
    and "submit p url meth hdr sid weight excl prov s = Inr (s', e, i)"
  shows "run_ok out wire s'"
proof (cases "stopped s")
  case True
  then show ?thesis
    using assms(2,3) by (simp add: submit_def)
next
  case False
  obtain u rc where url: "http_parser_parse_url url False (parser s) = (u, rc)"
    by (metis prod.exhaust)
  obtain g where g: "ng s = Some g"
    using assms(2) by (auto simp: run_ok_def between_def)
  let ?pri = "\<lparr>pri_stream = sid, pri_weight = weight, pri_exclusive = excl\<rparr>"
  let ?nva = "request_nva p u url meth hdr"
  obtain g' k where req: "submit_request p g ?pri ?nva prov = (g', k)"
    by (metis prod.exhaust)
  have "out g' = out g"
    using counts_outputD(5) [OF assms(1), of g ?pri ?nva prov] by (simp add: req)
  then have ok: "run_ok out wire (s\<lparr>parser := u, ng := Some g'\<rparr>)"
    using assms(2) g by (intro run_ok_ng) auto
  show ?thesis
    using assms(2,3) False ok
    by (auto simp: submit_def url g req Let_def and_then_Inr_iff register_stream_def
        dest!: try_write_ok(1) [OF ok] split: if_splits)
qed

lemma goAway_loop_out: "counts_output p out \<Longrightarrow> out (goAway_loop p m g) = out g"
  by (induction p m g rule: goAway_loop.induct) (auto simp: counts_outputD(7))

lemma goAway_ok:
  assumes "counts_output p out" and "run_ok out wire s"
  shows "\<exists>s'. goAway p s = Inr s' \<and> run_ok out wire s'"
proof -
  obtain g where g: "ng s = Some g"
    using assms(2) by (auto simp: run_ok_def between_def)
  have "run_ok out wire (s\<lparr>ng := Some (goAway_loop p (streams s) g)\<rparr>)"
    using assms(2) g by (intro run_ok_ng) (auto simp: goAway_loop_out [OF assms(1)])
  then show ?thesis
    by (simp add: goAway_def g)
qed

section \<open>Connecting\<close>

text \<open>
  A session that has not been connected yet, its uninitialised write buffer length happening to be 0.
\<close>

definition fresh :: "'ng session \<Rightarrow> bool" where
  "fresh s \<longleftrightarrow> ng s = None \<and> wb s = [] \<and> data_pending s = None \<and> \<not> writing s \<and> \<not> insideCb s \<and> ops s = []"

lemma connected_ok:
  assumes "counts_output p out" and "chunk_bound p" and "client_new p = Some g0" and "out g0 = []"
    and "fresh s"
  shows "\<exists>s'. onSocketConnected p s = Inr s' \<and> run_ok out [] s'"
proof -
  define g1 where "g1 = fst (sendClientConnectionHeader p g0)"
  have "out g1 = []"
    using counts_outputD(4) [OF assms(1)] assms(4) by (simp add: g1_def sendClientConnectionHeader_def)
  then have "between out [] (s\<lparr>stopped := False, ng := Some g1\<rparr>)"
    using assms(5) by (simp add: between_def fresh_def backlog_def pending_bytes_def)
  then obtain t where "do_write p (s\<lparr>stopped := False, ng := Some g1\<rparr>) = Inr t" "run_ok out [] t"
    using do_write_ok [OF assms(1,2)] by blast
  then show ?thesis
    using assms(3,5) by (simp add: onSocketConnected_def setupSession_def fresh_def g1_def)
qed

section \<open>Runs\<close>

text \<open>
  One step of a connected session, with the writes completed so far, each with its bytes and the number of
  them the socket has taken: the completion of a started operation (of a write with whatever number of
  bytes, or with an error), a request, a \<open>goAway\<close>, a \<open>stop\<close>.
\<close>

type_synonym completed = "(byte list \<times> nat) list"

definition issued :: "completed \<Rightarrow> byte list" where
  "issued ws = concat (map fst ws)"

definition taken :: "completed \<Rightarrow> byte list" where
  "taken ws = concat (map (\<lambda>(b, n). take n b) ws)"

lemma completed_simps [simp]:
  "issued [] = []" "taken [] = []" "issued (ws @ [(b, n)]) = issued ws @ b"
  "taken (ws @ [(b, n)]) = taken ws @ take n b"
  by (simp_all add: issued_def taken_def)

lemma taken_full: "\<forall>(b, n) \<in> set ws. length b \<le> n \<Longrightarrow> taken ws = issued ws"
  by (induction ws) (auto simp: issued_def taken_def)

inductive io_step :: "'ng platform \<Rightarrow> completed \<times> 'ng session \<Rightarrow> completed \<times> 'ng session \<Rightarrow> bool"
  for p :: "'ng platform" where
  written: "ops s = xs @ WriteOp b # ys \<Longrightarrow>
     write_done p failed n (s\<lparr>ops := xs @ ys\<rparr>) = Inr s' \<Longrightarrow> io_step p (ws, s) (ws @ [(b, n)], s')"
| received: "ops s = xs @ ReadOp # ys \<Longrightarrow>
     read_done p failed buf (s\<lparr>ops := xs @ ys\<rparr>) = Inr s' \<Longrightarrow> io_step p (ws, s) (ws, s')"
| pinged: "ops s = xs @ PingOp # ys \<Longrightarrow>
     ping_fired p aborted (s\<lparr>ops := xs @ ys\<rparr>) = Inr s' \<Longrightarrow> io_step p (ws, s) (ws, s')"
| submitted: "submit p url meth hdr sid weight excl prov s = Inr (s', e, i) \<Longrightarrow>
     io_step p (ws, s) (ws, s')"
| going_away: "goAway p s = Inr s' \<Longrightarrow> io_step p (ws, s) (ws, s')"
| stopping: "io_step p (ws, s) (ws, stop s)"

inductive_cases io_stepE: "io_step p (ws, s) (ws', s')"

lemma completion_ok:
  assumes "counts_output p out" and "chunk_bound p" and "run_ok out wire s"
  shows "ops s = xs @ WriteOp b # ys \<Longrightarrow> write_done p failed n (s\<lparr>ops := xs @ ys\<rparr>) = Inr s' \<Longrightarrow>
      run_ok out (wire @ b) s'"
    and "ops s = xs @ ReadOp # ys \<Longrightarrow> read_done p failed buf (s\<lparr>ops := xs @ ys\<rparr>) = Inr s' \<Longrightarrow>
      run_ok out wire s'"
    and "ops s = xs @ PingOp # ys \<Longrightarrow> ping_fired p aborted (s\<lparr>ops := xs @ ys\<rparr>) = Inr s' \<Longrightarrow>
      run_ok out wire s'"
  using write_done_ok [OF assms] read_done_ok [OF assms] ping_fired_ok [OF assms]
  by (metis sum.inject(2))+

lemma io_step_ok:
  assumes "counts_output p out" and "chunk_bound p" and "run_ok out (issued ws) s"
    and "io_step p (ws, s) (ws', s')"
  shows "run_ok out (issued ws') s'"
  using assms(4)
  by (rule io_stepE)
     (use completion_ok [OF assms(1-3)] submit_ok [OF assms(1,3)] goAway_ok [OF assms(1,3)]
        run_ok_stop [OF run_ok_between [OF assms(3)]] in \<open>simp; metis sum.inject(2)\<close>)+

lemma run_ok_reachable:
  assumes "counts_output p out" and "chunk_bound p" and "run_ok out (issued ws0) s0"
    and "(io_step p)\<^sup>*\<^sup>* (ws0, s0) (ws, s)"
  shows "run_ok out (issued ws) s"
proof -
  have "run_ok out (issued (fst x)) (snd x)" if "(io_step p)\<^sup>*\<^sup>* (ws0, s0) x" for x
    using that
  proof (induction rule: rtranclp_induct)
    case base
    then show ?case using assms(3) by simp
  next
    case (step y z)
    then show ?case
      using io_step_ok [OF assms(1,2), of "fst y" "snd y" "fst z" "snd z"] by simp
  qed
  from this [OF assms(4)] show ?thesis by simp
qed

text \<open>
  C1: The byte stream is intact. Take a session whose buffer length starts at 0, connected, and whatever
  completions (also of partial writes), pings, requests and shutdowns that follow. As long as it is not
  stopped, the bytes of the writes it has issued and seen completed, in order, followed by the write buffer and
  the data still pending, are exactly what nghttp2 has handed out, and when no write is under way nothing is
  left behind; if each of those writes was completed in full, the same holds of the bytes the socket has taken.
\<close>

theorem byte_stream_intact:
  assumes "counts_output p out" and "chunk_bound p" and "client_new p = Some g0" and "out g0 = []"
    and "fresh s0" and "onSocketConnected p s0 = Inr s1"
    and "(io_step p)\<^sup>*\<^sup>* ([], s1) (ws, s)" and "\<not> stopped s"
  shows "\<exists>g. ng s = Some g \<and> out g = issued ws @ backlog s \<and> (writing s \<or> backlog s = []) \<and>
    ((\<forall>(b, n) \<in> set ws. length b \<le> n) \<longrightarrow> out g = taken ws @ backlog s)"
proof -
  have "run_ok out (issued []) s1"
    using connected_ok [OF assms(1-5)] assms(6) by auto
  then have "run_ok out (issued ws) s"
    using run_ok_reachable [OF assms(1,2) _ assms(7)] by blast
  then show ?thesis
    using assms(8) taken_full [of ws] by (auto simp: run_ok_def between_def backlog_def pending_bytes_def)
qed

text \<open>
  C9: The handlers stay inside the language. In every state a connected session reaches whose buffer length
  started at 0, also after it was stopped, the completion of a started write (with any outcome), read or ping
  wait returns: the mutex is free when it is taken, the nghttp2 object exists, and copying the pending data and
  clearing the buffer stay inside it.
\<close>

theorem handlers_never_fault:
  assumes "counts_output p out" and "chunk_bound p" and "client_new p = Some g0" and "out g0 = []"
    and "fresh s0" and "onSocketConnected p s0 = Inr s1"
    and "(io_step p)\<^sup>*\<^sup>* ([], s1) (ws, s)" and "ops s = xs @ a # ys"
  shows "case a of
      WriteOp b \<Rightarrow> \<exists>s'. write_done p failed n (s\<lparr>ops := xs @ ys\<rparr>) = Inr s'
    | ReadOp \<Rightarrow> \<exists>s'. read_done p failed buf (s\<lparr>ops := xs @ ys\<rparr>) = Inr s'
    | PingOp \<Rightarrow> \<exists>s'. ping_fired p aborted (s\<lparr>ops := xs @ ys\<rparr>) = Inr s'
    | DeadlineOp \<Rightarrow> True"
proof -
  have "run_ok out (issued []) s1"
    using connected_ok [OF assms(1-5)] assms(6) by auto
  then have ok: "run_ok out (issued ws) s"
    using run_ok_reachable [OF assms(1,2) _ assms(7)] by blast
  show ?thesis
    using assms(8) write_done_ok [OF assms(1,2) ok] read_done_ok [OF assms(1,2) ok]
      ping_fired_ok [OF assms(1,2) ok] by (cases a) (auto, blast+)
qed

text \<open>
  C38: A write that is not complete loses bytes. The completion handler ignores how many bytes
  \<open>async_write_some\<close> has written and clears the whole buffer; if the socket took only the first \<open>n\<close> of
  them, what it has taken and what is still to be written is less than what nghttp2 has handed out.
\<close>

theorem short_write_loses_bytes:
  assumes "counts_output p out" and "chunk_bound p" and "run_ok out wire s"
    and "ops s = xs @ WriteOp b # ys" and "n < length b"
    and "write_done p False n (s\<lparr>ops := xs @ ys\<rparr>) = Inr s'" and "\<not> stopped s'"
  shows "length ((wire @ take n b) @ backlog s') < length (out (the (ng s')))"
proof -
  have "run_ok out (wire @ b) s'"
    using assms(6) by (rule completion_ok(1) [OF assms(1-4)])
  then show ?thesis
    using assms(5,7) by (simp add: run_ok_def between_def)
qed

section \<open>Requests on a run\<close>

definition target :: "url_parts \<Rightarrow> string" where
  "target q = (if path q = [] then ''/'' else path q) @ mark_text CHR ''?'' (query q)"

lemma submitted_url:
  assumes "url_parts_ok q"
  shows "\<exists>u. http_parser_parse_url (render_url q) False v = (u, 0) \<and>
    has_field u UF_SCHEMA \<and> has_field u UF_HOST \<and>
    copy_url_component [] u UF_SCHEMA (render_url q) = scheme q \<and> request_path u (render_url q) = target q"
proof -
  obtain u where u: "http_parser_parse_url (render_url q) False v = (u, 0)"
      "parts_of u (render_url q) = q"
    using http_parser_parse_url_render [OF assms] by blast
  have parts: "copy_url_component [] u UF_SCHEMA (render_url q) = scheme q"
      "copy_url_component [] u UF_HOST (render_url q) = host q"
      "copy_url_component [] u UF_PATH (render_url q) = path q"
      "read_field u (render_url q) UF_QUERY = query q"
    using arg_cong [OF u(2), of scheme] arg_cong [OF u(2), of host] arg_cong [OF u(2), of path]
      arg_cong [OF u(2), of query] by (simp_all add: parts_of_def)
  have "has_field u UF_SCHEMA" "has_field u UF_HOST"
    using parts(1,2) url_parts_okD(1,4) [OF assms] by (auto simp: copy_url_component_def split: if_splits)
  moreover have "request_path u (render_url q) = target q"
    using parts(3,4) by (cases "query q")
      (auto simp: request_path_def target_def Let_def read_field_def split: if_splits)
  ultimately show ?thesis
    using u(1) parts(1) by blast
qed

definition request_fields :: "'ng platform \<Rightarrow> string \<Rightarrow> url_parts \<Rightarrow> fields \<Rightarrow> nv list" where
  "request_fields p meth q hdr =
     [make_nv_ls '':method'' (dangling p meth), make_nv_ls '':scheme'' (scheme q),
      make_nv_ls '':path'' (target q)] @ map (\<lambda>(k, v). make_nv k (hv_value v) (sensitive v)) hdr"

lemma submit_render:
  assumes "url_parts_ok q" and "\<not> stopped s" and "ng s = Some g"
  shows "\<exists>u. submit p (render_url q) meth hdr sid weight excl prov s =
    (case submit_request p g \<lparr>pri_stream = sid, pri_weight = weight, pri_exclusive = excl\<rparr>
            (request_fields p meth q hdr) prov of
       (g', i) \<Rightarrow>
         if i < 0 then Inr (s\<lparr>parser := u, ng := Some g'\<rparr>, NoError, 0)
         else and_then (try_write p (s\<lparr>parser := u, ng := Some g'\<rparr>))
           (\<lambda>s. Inr (register_stream p i s, NoError, i)))"
proof -
  obtain u where u: "http_parser_parse_url (render_url q) False (parser s) = (u, 0)"
      "has_field u UF_SCHEMA" "has_field u UF_HOST"
      "copy_url_component [] u UF_SCHEMA (render_url q) = scheme q"
      "request_path u (render_url q) = target q"
    using submitted_url [OF assms(1)] by blast
  then have "request_nva p u (render_url q) meth hdr = request_fields p meth q hdr"
    by (simp add: request_nva_def request_fields_def)
  then show ?thesis
    using u assms(2,3) by (intro exI [of _ u]) (simp add: submit_def Let_def)
qed

text \<open>The session after a request while a write is under way: the new nghttp2 object and the stream.\<close>

lemma submit_while_writing:
  assumes "url_parts_ok q" and "\<not> stopped s" and "writing s" and "ng s = Some g"
    and "submit_request p g \<lparr>pri_stream = sid, pri_weight = weight, pri_exclusive = excl\<rparr>
      (request_fields p meth q hdr) prov = (g', i)" and "0 \<le> i"
  shows "\<exists>u. submit p (render_url q) meth hdr sid weight excl prov s =
    Inr (register_stream p i (s\<lparr>parser := u, ng := Some g'\<rparr>), NoError, i)"
proof -
  obtain u where run: "submit p (render_url q) meth hdr sid weight excl prov s =
      and_then (try_write p (s\<lparr>parser := u, ng := Some g'\<rparr>)) (\<lambda>s. Inr (register_stream p i s, NoError, i))"
    using submit_render [OF assms(1,2,4), of p meth hdr sid weight excl prov] assms(5,6) by auto
  have "try_write p t = Inr t" if "\<not> stopped t" "writing t" for t
    using that by (cases "insideCb t"; cases t) (simp_all add: try_write_def do_write_def)
  then have "try_write p (s\<lparr>parser := u, ng := Some g'\<rparr>) = Inr (s\<lparr>parser := u, ng := Some g'\<rparr>)"
    using assms(2,3) by simp
  then show ?thesis
    using run by auto
qed

lemma frame_register [simp, frame_simps]:
  "ng (register_stream p i s) = ng s" "stopped (register_stream p i s) = stopped s"
  "log (register_stream p i s) = log s" "wb (register_stream p i s) = wb s" "ops (register_stream p i s) = ops s"
  "writing (register_stream p i s) = writing s" "insideCb (register_stream p i s) = insideCb s"
  "mime (register_stream p i s) = mime s" "on_ready (register_stream p i s) = on_ready s"
  "on_state (register_stream p i s) = on_state s"
  by (simp_all add: register_stream_def)

lemma findStream_register:
  assumes "0 \<le> i" and "i < 2 ^ 31"
  shows "findStream (word_of_int i) (register_stream p i s) =
    (case findStream (word_of_int i) s of
       None \<Rightarrow> Some (new_stream (word_of_int i) (find_raw p (ng s) (word_of_int i))) | Some x \<Rightarrow> Some x)"
proof -
  have "uint (word_of_int i :: 32 word) = i"
    using assms by (simp add: unsigned_of_int take_bit_int_eq_self)
  then have "(word_of_int i :: 64 word) = ucast (word_of_int i :: 32 word)"
    by (metis ucast_eq)
  then show ?thesis
    by (simp add: findStream_def register_stream_def table.look_ins split: option.split)
qed

text \<open>
  While a write is under way, a request for a well-formed URL is handed to nghttp2 with exactly the
  pseudo-header fields of the URL (its scheme; its path, \<open>/\<close> if it has none, with the query) before the
  header fields of the caller, in their order; \<open>submit\<close> returns the identifier nghttp2 assigned, a
  stream is registered under it and the write buffer is untouched.
\<close>

theorem submit_hands_over_the_url:
  assumes "url_parts_ok q" and "\<not> stopped s" and "writing s" and "ng s = Some g"
    and "submit_request p g \<lparr>pri_stream = sid, pri_weight = weight, pri_exclusive = excl\<rparr>
      (request_fields p meth q hdr) prov = (g', i)"
    and "0 \<le> i" and "i < 2 ^ 31"
  shows "\<exists>s'. submit p (render_url q) meth hdr sid weight excl prov s = Inr (s', NoError, i) \<and>
    ng s' = Some g' \<and> findStream (word_of_int i) s' \<noteq> None \<and> wb s' = wb s \<and> ops s' = ops s"
  using submit_while_writing [OF assms(1-6)] findStream_register [OF assms(6,7), of p]
  by (auto split: option.splits)

text \<open>
  C39: When nothing is being written, every accepted request blocks for ever: \<open>submit\<close> takes the mutex
  with \<open>try_lock\<close> and calls \<open>write\<close>, which locks the same mutex again on the same thread.
\<close>

theorem submit_idle_deadlocks:
  assumes "url_parts_ok q" and "\<not> stopped s" and "\<not> writing s" and "\<not> insideCb s" and "data_pending s = None"
    and "ng s = Some g"
    and "0 \<le> snd (submit_request p g \<lparr>pri_stream = sid, pri_weight = weight, pri_exclusive = excl\<rparr>
      (request_fields p meth q hdr) prov)"
  shows "submit p (render_url q) meth hdr sid weight excl prov s = Inl SelfDeadlock"
proof -
  obtain g' i where req: "submit_request p g \<lparr>pri_stream = sid, pri_weight = weight, pri_exclusive = excl\<rparr>
      (request_fields p meth q hdr) prov = (g', i)"
    by (metis prod.exhaust)
  have "try_write p (s\<lparr>parser := u, ng := Some g'\<rparr>) = Inl SelfDeadlock" for u
    using assms(2-5) by (simp add: try_write_def do_write_def copy_pending_def)
  then show ?thesis
    using submit_render [OF assms(1,2,6), of p meth hdr sid weight excl prov] assms(7)
    by (auto simp: req)
qed

section \<open>Where a session gets stuck\<close>

text \<open>
  A completed read of no bytes is never acted on, whether it reports an error or the end of the
  connection: the session is not stopped, nothing is reported and no further read is started.
\<close>

theorem empty_read_is_ignored: "read_done p failed [] s = Inr s"
  by (simp add: read_done_def)

text \<open>
  A session cannot be connected a second time. When it still has its nghttp2 object from the first
  connection, connecting it again only clears the stopped flag: no read is started, no settings are
  sent, and a write that was under way when it was stopped still counts as under way.
\<close>

theorem reconnect_starts_nothing:
  assumes "ng s \<noteq> None"
  shows "onSocketConnected p s = Inr (s\<lparr>stopped := False\<rparr>)"
  using assms by (simp add: onSocketConnected_def setupSession_def)

text \<open>
  A request on a stopped session is dropped, but \<open>submit\<close> reports success and the stream
  identifier 0.
\<close>

theorem submit_on_stopped_reports_success:
  assumes "stopped s"
  shows "submit p url meth hdr sid weight excl prov s = Inr (s, NoError, 0)"
  using assms by (simp add: submit_def)

section \<open>A concrete run\<close>

text \<open>
  A small session object used to apply the theorems: the bytes queued and the bytes handed out. Every
  submission queues a byte or two, \<open>mem_send\<close> hands out at most a buffer full.
\<close>

definition sample_platform :: "(byte list \<times> byte list) platform" where
  "sample_platform =
     \<lparr>client_new = Some ([], []),
      mem_send = \<lambda>(q, h). ((drop wb_size q, h @ take wb_size q), [], SendChunk (take wb_size q)),
      mem_recv = \<lambda>g buf. (g, [], int (length buf)),
      want_read = \<lambda>_. True, want_write = \<lambda>(q, h). q \<noteq> [],
      submit_settings = \<lambda>(q, h) iv. ((q @ [1, 2, 3], h), 0),
      submit_request = \<lambda>(q, h) pri nvs prov. ((q @ [4], h), 1),
      submit_ping = \<lambda>(q, h). ((q @ [5], h), 0),
      submit_goaway = \<lambda>(q, h) i. ((q @ [6], h), 0),
      find_raw = \<lambda>_ _. None, ipv6_numeric_addr = \<lambda>_. False, dangling = \<lambda>m. m\<rparr>"

definition connected_sample :: "(byte list \<times> byte list) session" where
  "connected_sample = (new_session [])
     \<lparr>stopped := False, ng := Some ([], [1, 2, 3]), wb := [1, 2, 3], writing := True, ping_started := True,
      ops := [WriteOp [1, 2, 3], ReadOp, PingOp]\<rparr>"

definition idle_sample :: "(byte list \<times> byte list) session" where
  "idle_sample = connected_sample\<lparr>ops := [ReadOp, PingOp], wb := [], writing := False\<rparr>"

lemma sample_laws:
  "counts_output sample_platform snd" "chunk_bound sample_platform"
  "client_new sample_platform = Some ([], [])" "snd ([] :: byte list, [] :: byte list) = []" "fresh (new_session [])"
  by (auto simp: counts_output_def chunk_bound_def sample_platform_def fresh_def new_session_def
      split: prod.splits)

lemma sample_connected: "onSocketConnected sample_platform (new_session []) = Inr connected_sample"
  by (simp add: onSocketConnected_def setupSession_def sendClientConnectionHeader_def new_session_def
      sample_platform_def connected_sample_def do_write_def copy_pending_def locked_def fill.simps
      handle_all_def Let_def wb_size_value start_op_def do_read_def startPing_def)

lemma sample_written:
  "write_done sample_platform False n (connected_sample\<lparr>ops := [ReadOp, PingOp]\<rparr>) = Inr idle_sample"
  by (simp add: write_done_def connected_sample_def idle_sample_def new_session_def do_write_def
      copy_pending_def locked_def fill.simps handle_all_def wb_size_value Let_def sample_platform_def)

lemma sample_run: "(io_step sample_platform)\<^sup>*\<^sup>* ([], connected_sample) ([([1, 2, 3], 3)], idle_sample)"
proof -
  have "ops connected_sample = [] @ WriteOp [1, 2, 3] # [ReadOp, PingOp]"
    by (simp add: connected_sample_def)
  from io_step.written [OF this, of sample_platform False 3 idle_sample "[]"]
  have "io_step sample_platform ([], connected_sample) ([([1, 2, 3], 3)], idle_sample)"
    using sample_written [of 3] by simp
  then show ?thesis by (rule r_into_rtranclp)
qed

lemma sample_states:
  "\<not> stopped idle_sample" "ng idle_sample = Some ([], [1, 2, 3])" "\<not> writing idle_sample"
  "\<not> insideCb idle_sample" "data_pending idle_sample = None" "ops idle_sample = [] @ ReadOp # [PingOp]"
  "\<not> stopped connected_sample" "writing connected_sample" "ng connected_sample = Some ([], [1, 2, 3])"
  "ops connected_sample = [] @ WriteOp [1, 2, 3] # [ReadOp, PingOp]" "wb connected_sample = [1, 2, 3]"
  by (simp_all add: idle_sample_def connected_sample_def new_session_def)

theorem byte_stream_intact_witness:
  "\<exists>g. ng idle_sample = Some g \<and> snd g = [1, 2, 3] \<and> snd g = taken [([1, 2, 3], 3)] @ backlog idle_sample \<and>
     (writing idle_sample \<or> backlog idle_sample = [])"
  using byte_stream_intact [OF sample_laws sample_connected sample_run sample_states(1)]
  by (auto simp: sample_states issued_def)

theorem handlers_never_fault_witness:
  "\<exists>s'. read_done sample_platform False [7] (idle_sample\<lparr>ops := [PingOp]\<rparr>) = Inr s'"
  using handlers_never_fault [OF sample_laws sample_connected sample_run sample_states(6)] by simp

lemma sample_ok: "run_ok snd [] connected_sample"
  using connected_ok [OF sample_laws] sample_connected by auto

theorem short_write_loses_bytes_witness:
  "length (([] @ take 1 [1, 2, 3]) @ backlog idle_sample) < length (snd (the (ng idle_sample)))"
  using sample_written [of 1]
  by (intro short_write_loses_bytes [OF sample_laws(1,2) sample_ok sample_states(10), of 1])
     (simp_all add: sample_states)

theorem submit_hands_over_the_url_witness:
  "\<exists>s'. submit sample_platform ''https://bob:pw@a-b.org:8443/x?k=v#top'' ''GET'' [] 0 0 False False connected_sample =
      Inr (s', NoError, 1) \<and>
    ng s' = Some ([4], [1, 2, 3]) \<and> findStream (word_of_int 1) s' \<noteq> None \<and> wb s' = wb connected_sample \<and>
    ops s' = ops connected_sample"
  unfolding sample_url_text [symmetric]
  by (rule submit_hands_over_the_url [OF sample_url_ok sample_states(7-9)])
     (simp_all add: sample_platform_def)

theorem submit_idle_deadlocks_witness:
  "submit sample_platform ''https://bob:pw@a-b.org:8443/x?k=v#top'' ''GET'' [] 0 0 False False idle_sample =
     Inl SelfDeadlock"
  unfolding sample_url_text [symmetric]
  by (rule submit_idle_deadlocks [OF sample_url_ok sample_states(1,3,4,5,2)])
     (simp add: sample_platform_def)

theorem reconnect_starts_nothing_witness:
  "onSocketConnected sample_platform (stop connected_sample) = Inr ((stop connected_sample)\<lparr>stopped := False\<rparr>)"
  by (rule reconnect_starts_nothing) (simp add: sample_states)

theorem submit_on_stopped_witness:
  "submit sample_platform ''https://h/'' ''GET'' [] 0 0 False False (stop connected_sample) =
     Inr (stop connected_sample, NoError, 0)"
  by (rule submit_on_stopped_reports_success) simp

end
