(* ===== verification/Output_Drains.thy ===== *)
theory Output_Drains
  imports Session_Run
begin

text \<open>
  Writing ends. One \<open>write\<close> returns whatever nghttp2 does and never fills the buffer beyond its size; and
  a session whose writes are completed in full hands everything nghttp2 has queued to the socket.
\<close>

section \<open>One write\<close>

definition write_effect :: "'ng session \<Rightarrow> 'ng session \<Rightarrow> bool" where
  "write_effect s t \<longleftrightarrow>
     ng t \<noteq> None \<and> length (wb t) \<le> wb_size \<and> insideCb t = insideCb s \<and> writing t = writing s \<and> ops t = ops s"

lemma fill_effect:
  "length (wb s) \<le> wb_size \<Longrightarrow> fill p g s = (s', aborted) \<Longrightarrow> write_effect s s'"
proof (induction p g s arbitrary: s' rule: fill.induct)
  case (1 p g s)
  obtain g' fs r where send: "mem_send p g = (g', fs, r)"
    by (metis prod.exhaust)
  define t where "t = handle_all (find_raw p) fs (s\<lparr>ng := Some g'\<rparr>)"
  have t: "write_effect s t" "wb t = wb s"
    using 1(2) by (simp_all add: t_def write_effect_def)
  show ?case
  proof (cases r)
    case SendNoMem
    then show ?thesis
      using 1(3) t send by (auto simp: fill.simps [of p g s] t_def [symmetric] Let_def write_effect_def)
  next
    case (SendChunk d)
    have step: "fill p g s =
        (if d = [] then (t, False)
         else if length (wb t) + length d > wb_size then (t\<lparr>data_pending := Some d\<rparr>, False)
         else fill p g' (t\<lparr>wb := wb t @ d\<rparr>))"
      by (simp add: fill.simps [of p g s] send SendChunk t_def Let_def)
    show ?thesis
    proof (cases "d = [] \<or> length (wb t) + length d > wb_size")
      case True
      then show ?thesis
        using 1(3) t step by (auto simp: write_effect_def split: if_splits)
    next
      case False
      then have "write_effect (t\<lparr>wb := wb t @ d\<rparr>) s'"
        using 1(1) [OF send [symmetric] refl t_def SendChunk] 1(3) step by simp
      then show ?thesis
        using t by (simp add: write_effect_def)
    qed
  qed
qed

text \<open>
  C17: One \<open>write\<close> always returns. Whatever nghttp2 hands out, also chunks longer than the buffer or an
  unending supply of them, the loop ends, the buffer holds at most its 65536 bytes, the mutex is free
  again, and at most one write operation is started, for the buffer's contents, which are not empty.
\<close>

theorem write_returns_within_the_buffer:
  assumes "\<not> insideCb s" and "ng s \<noteq> None" and "length (backlog s) \<le> wb_size"
  shows "\<exists>t. do_write p s = Inr t \<and> length (wb t) \<le> wb_size \<and> \<not> insideCb t \<and>
    (ops t = ops s \<or> ops t = ops s @ [WriteOp (wb t)] \<and> wb t \<noteq> [] \<and> writing t)"
proof (cases "stopped s \<or> writing s")
  case True
  then show ?thesis
    using assms by (auto simp: do_write_def backlog_def)
next
  case False
  define u where "u = s\<lparr>wb := backlog s, data_pending := None\<rparr>"
  have copy: "copy_pending s = Inr u"
    using assms(3) by (cases "data_pending s") (simp_all add: copy_pending_def u_def backlog_def pending_bytes_def)
  obtain g where g: "ng s = Some g"
    using assms(2) by blast
  obtain t a where run: "fill p g (u\<lparr>insideCb := True\<rparr>) = (t, a)"
    by (metis prod.exhaust)
  have "write_effect (u\<lparr>insideCb := True\<rparr>) t"
    using assms(3) run by (intro fill_effect) (simp_all add: u_def)
  then show ?thesis
    using False assms(1) g copy run
    by (auto simp: do_write_def locked_def write_effect_def u_def start_op_def)
qed

section \<open>Until nothing is left\<close>

text \<open>
  \<open>q g\<close> is the number of bytes nghttp2 still has to hand out: every chunk takes its length off, an empty
  chunk is returned only when nothing is left, and memory does not run out.
\<close>

definition drains :: "'ng platform \<Rightarrow> ('ng \<Rightarrow> nat) \<Rightarrow> bool" where
  "drains p q \<longleftrightarrow>
     (\<forall>g g' fs r. mem_send p g = (g', fs, r) \<longrightarrow>
        (\<exists>d. r = SendChunk d \<and> length d \<le> wb_size \<and> q g = length d + q g' \<and> (d = [] \<longleftrightarrow> q g = 0)))"

lemma drainsD:
  assumes "drains p q" and "mem_send p g = (g', fs, r)"
  obtains d where "r = SendChunk d" "length d \<le> wb_size" "q g = length d + q g'" "d = [] \<longleftrightarrow> q g = 0"
  using assms unfolding drains_def by blast

definition to_send :: "('ng \<Rightarrow> nat) \<Rightarrow> 'ng session \<Rightarrow> nat" where
  "to_send q s = length (pending_bytes s) + (case ng s of None \<Rightarrow> 0 | Some g \<Rightarrow> q g)"

text \<open>Why a session may be stopped while its writes complete.\<close>

lemma handle_stops: "stopped (handle fr e s) \<Longrightarrow> stopped s \<or> on_ready s = ReadyThen True"
  by (cases e) (auto simp: beforeFrameSend_def onBeginHeaders_def onHeader_def onFrameRecv_def onDataChunkRecv_def
      onStreamClose_def ready_hook_def Let_def split: option.splits ready_callback.splits if_splits)

lemma handle_all_stops: "stopped (handle_all fr es s) \<Longrightarrow> stopped s \<or> on_ready s = ReadyThen True"
proof (induction es arbitrary: s)
  case (Cons e es)
  then show ?case
    using Cons.IH [of "handle fr e s"] handle_stops [of fr e s] by (auto simp: handle_all_def)
qed (simp add: handle_all_def)

text \<open>What nghttp2 hands out between two states is what its queue loses.\<close>

definition handed :: "('ng \<Rightarrow> byte list) \<Rightarrow> ('ng \<Rightarrow> nat) \<Rightarrow> 'ng \<Rightarrow> 'ng session \<Rightarrow> bool" where
  "handed out q g t \<longleftrightarrow> (\<exists>g' more. ng t = Some g' \<and> out g' = out g @ more \<and> length more + q g' = q g)"

lemma handed_trans: "out g' = out g @ d \<Longrightarrow> q g = length d + q g' \<Longrightarrow> handed out q g' t \<Longrightarrow> handed out q g t"
  by (auto simp: handed_def)

lemma fill_total:
  "drains p q \<Longrightarrow> counts_output p out \<Longrightarrow> fill p g s = (s', aborted) \<Longrightarrow> data_pending s = None \<Longrightarrow>
   \<not> aborted \<and> (stopped s' \<longrightarrow> stopped s \<or> on_ready s = ReadyThen True) \<and> on_ready s' = on_ready s \<and>
   length (wb s') + to_send q s' = length (wb s) + q g \<and> (wb s' = [] \<longrightarrow> to_send q s' = 0) \<and> handed out q g s'"
proof (induction p g s arbitrary: s' rule: fill.induct)
  case (1 p g s)
  obtain g' fs r where send: "mem_send p g = (g', fs, r)"
    by (metis prod.exhaust)
  then obtain d where d: "r = SendChunk d" "length d \<le> wb_size" "q g = length d + q g'" "d = [] \<longleftrightarrow> q g = 0"
    by (rule drainsD [OF "1.prems"(1)])
  have out: "out g' = out g @ d"
    using counts_outputD(2) [OF "1.prems"(2)] send d(1) by blast
  define t where "t = handle_all (find_raw p) fs (s\<lparr>ng := Some g'\<rparr>)"
  have t: "ng t = Some g'" "wb t = wb s" "data_pending t = None" "on_ready t = on_ready s"
      "stopped t \<Longrightarrow> stopped s \<or> on_ready s = ReadyThen True"
    using 1(5) handle_all_stops [of "find_raw p" fs "s\<lparr>ng := Some g'\<rparr>"] by (simp_all add: t_def)
  have step: "fill p g s =
      (if d = [] then (t, False)
       else if length (wb t) + length d > wb_size then (t\<lparr>data_pending := Some d\<rparr>, False)
       else fill p g' (t\<lparr>wb := wb t @ d\<rparr>))"
    by (simp add: fill.simps [of p g s] send d(1) t_def Let_def)
  have handed: "handed out q g t'" if "ng t' = Some g'" for t'
    using that out d(3) by (auto simp: handed_def)
  consider "d = []" | "d \<noteq> []" "length (wb t) + length d > wb_size"
    | "d \<noteq> []" "length (wb t) + length d \<le> wb_size"
    by linarith
  then show ?case
  proof cases
    case 1
    then have "q g = 0" and "fill p g s = (t, False)"
      using d(4) step by auto
    then have "s' = t" "\<not> aborted" "q g' = 0" "q g = 0"
      using "1.prems"(3) d(3) by simp_all
    then show ?thesis
      using t handed [OF t(1)] by (simp add: to_send_def pending_bytes_def)
  next
    case 2
    then have "s' = t\<lparr>data_pending := Some d\<rparr>" "\<not> aborted" "wb s \<noteq> []"
      using "1.prems"(3) step d(2) t(2) by auto
    then show ?thesis
      using t d(2,3) handed [of s'] by (simp add: to_send_def pending_bytes_def)
  next
    case 3
    then have "fill p g' (t\<lparr>wb := wb t @ d\<rparr>) = (s', aborted)"
      using "1.prems"(3) step by simp
    from "1.IH" [OF send [symmetric] refl t_def d(1) _ _ "1.prems"(1,2) this] 3 t d(2,3)
    have "\<not> aborted \<and> (stopped s' \<longrightarrow> stopped t \<or> on_ready t = ReadyThen True) \<and> on_ready s' = on_ready t \<and>
        length (wb s') + to_send q s' = length (wb s) + q g \<and> (wb s' = [] \<longrightarrow> to_send q s' = 0) \<and> handed out q g' s'"
      by simp
    then show ?thesis
      using t(4,5) handed_trans [OF out d(3)] by auto
  qed
qed

lemma drains_bound: "drains p q \<Longrightarrow> chunk_bound p"
  unfolding drains_def chunk_bound_def by (metis send_result.inject)

text \<open>One write makes the queue shorter, or empties it and writes no more, or the session was stopped.\<close>

definition progress :: "('ng \<Rightarrow> nat) \<Rightarrow> 'ng session \<Rightarrow> 'ng session \<Rightarrow> bool" where
  "progress q s t \<longleftrightarrow>
     stopped t \<and> (on_ready s = ReadyThen True \<or> (\<exists>x. table_find 0 (streams t) = Some x \<and> st x = Closed)) \<or>
     \<not> stopped t \<and> \<not> writing t \<and> to_send q t = 0 \<or>
     \<not> stopped t \<and> writing t \<and> to_send q t < to_send q s"

lemma write_progress:
  assumes "drains p q" and "counts_output p out" and "between out wire s" and "wb s = []"
    and "\<not> writing s" and "\<not> stopped s" and "ng s = Some g"
  shows "\<exists>t. do_write p s = Inr t \<and> on_ready t = on_ready s \<and> handed out q g t \<and> progress q s t"
proof -
  define u where "u = s\<lparr>wb := pending_bytes s, data_pending := None, insideCb := True\<rparr>"
  have small: "length (pending_bytes s) \<le> wb_size" "\<not> insideCb s"
    using assms(3) by (auto simp: between_def)
  have copy: "copy_pending s = Inr (u\<lparr>insideCb := False\<rparr>)"
    using small assms(4) by (cases "data_pending s") (simp_all add: copy_pending_def u_def pending_bytes_def)
  obtain t a where run: "fill p g u = (t, a)"
    by (metis prod.exhaust)
  have eff: "write_effect u t"
    using small run by (intro fill_effect) (simp_all add: u_def)
  have total: "\<not> a" "stopped t \<Longrightarrow> on_ready s = ReadyThen True" "on_ready t = on_ready s"
      "length (wb t) + to_send q t = to_send q s" "wb t = [] \<Longrightarrow> to_send q t = 0" "handed out q g t"
    using fill_total [OF assms(1,2) run] assms(6,7) by (simp_all add: u_def to_send_def)
  have result: "do_write p s = Inr (if wb t = [] then t\<lparr>insideCb := False\<rparr>
      else start_op (WriteOp (wb t)) (t\<lparr>insideCb := False, writing := True\<rparr>))"
    using assms(5-7) copy run total(1) eff
    by (simp add: do_write_def locked_def u_def write_effect_def min_absorb1)
  have same: "handed out q g (t\<lparr>insideCb := b\<rparr>) = handed out q g t"
      "handed out q g (start_op w (t\<lparr>insideCb := b, writing := True\<rparr>)) = handed out q g t"
      "to_send q (t\<lparr>insideCb := b\<rparr>) = to_send q t"
      "to_send q (start_op w (t\<lparr>insideCb := b, writing := True\<rparr>)) = to_send q t" for b w
    by (simp_all add: handed_def to_send_def pending_bytes_def start_op_def)
  have "wb t \<noteq> [] \<Longrightarrow> to_send q t < to_send q s"
    using total(4) by (metis add_less_cancel_right add_0 length_greater_0_conv)
  moreover have "writing t = False"
    using eff assms(5) by (simp add: write_effect_def u_def)
  ultimately show ?thesis
    using result total same by (cases "stopped t") (auto simp: progress_def start_op_def)
qed

text \<open>A write that is under way completes in full, on a session that is not stopped.\<close>

inductive full_write :: "'ng platform \<Rightarrow> completed \<times> 'ng session \<Rightarrow> completed \<times> 'ng session \<Rightarrow> bool"
  for p :: "'ng platform" where
  full_write: "\<not> stopped s \<Longrightarrow> ops s = xs @ WriteOp b # ys \<Longrightarrow>
     write_done p False (length b) (s\<lparr>ops := xs @ ys\<rparr>) = Inr s' \<Longrightarrow>
     full_write p (ws, s) (ws @ [(b, length b)], s')"

inductive_cases full_writeE: "full_write p (ws, s) (ws', s')"

lemma full_write_io: "full_write p x y \<Longrightarrow> io_step p x y"
  by (induction rule: full_write.induct) (rule io_step.written)

lemma write_done_cases:
  "write_done p False n s = Inr t \<Longrightarrow> length (wb s) \<le> wb_size \<Longrightarrow>
   t = stop s \<and> (\<exists>x. table_find 0 (streams s) = Some x \<and> st x = Closed) \<or>
   do_write p (s\<lparr>wb := [], writing := False\<rparr>) = Inr t"
  by (auto simp: write_done_def split: if_splits option.splits)

lemma full_write_op: "full_write p x y \<Longrightarrow> \<exists>b. WriteOp b \<in> set (ops (snd x))"
  by (induction rule: full_write.induct) auto

lemma full_write_step:
  assumes "drains p q" and "counts_output p out" and "run_ok out (issued ws) s" and "ng s = Some g"
    and "full_write p (ws, s) (ws', t)"
  shows "run_ok out (issued ws') t" and "\<exists>b. ws' = ws @ [(b, length b)]"
    and "on_ready t = on_ready s" and "handed out q g t" and "progress q s t"
proof -
  show "run_ok out (issued ws') t"
    by (rule io_step_ok [OF assms(2) drains_bound [OF assms(1)] assms(3) full_write_io [OF assms(5)]])
  obtain xs b ys where go: "\<not> stopped s" "ops s = xs @ WriteOp b # ys" "ws' = ws @ [(b, length b)]"
      "write_done p False (length b) (s\<lparr>ops := xs @ ys\<rparr>) = Inr t"
    using assms(5) by (rule full_writeE) auto
  then show "\<exists>b. ws' = ws @ [(b, length b)]"
    by blast
  let ?r = "s\<lparr>ops := xs @ ys, wb := [], writing := False\<rparr>"
  have s: "writing s" "wb s = b" "writes_of (xs @ ys) = []" "length b \<le> wb_size"
    using take_write [OF assms(3) go(2,1)] assms(3) by (auto simp: run_ok_def between_def)
  have r: "between out (issued ws @ b) ?r"
    using assms(3,4) s go(1) by (auto simp: run_ok_def between_def backlog_def pending_bytes_def)
  consider "t = stop (s\<lparr>ops := xs @ ys\<rparr>)" "\<exists>x. table_find 0 (streams s) = Some x \<and> st x = Closed" | "do_write p ?r = Inr t"
    using write_done_cases [OF go(4)] s(2,4) by auto
  then have "on_ready t = on_ready s \<and> handed out q g t \<and> progress q s t"
  proof cases
    case 1
    then show ?thesis
      using assms(4) by (simp add: handed_def progress_def)
  next
    case 2
    obtain v where "do_write p ?r = Inr v" "on_ready v = on_ready ?r" "handed out q g v" "progress q ?r v"
      using write_progress [OF assms(1,2) r] assms(4) go(1) by auto
    then show ?thesis
      using 2 by (simp add: progress_def to_send_def pending_bytes_def)
  qed
  then show "on_ready t = on_ready s" and "handed out q g t" and "progress q s t"
    by blast+
qed

text \<open>After any number of full writes: how many there were, what was taken, and why no more may follow.\<close>

definition flushed ::
  "('ng \<Rightarrow> byte list) \<Rightarrow> ('ng \<Rightarrow> nat) \<Rightarrow> completed \<Rightarrow> 'ng session \<Rightarrow> 'ng \<Rightarrow> nat \<Rightarrow> completed \<Rightarrow> 'ng session \<Rightarrow> bool"
where
  "flushed out q ws s g k ws' t \<longleftrightarrow>
     run_ok out (issued ws') t \<and> handed out q g t \<and> on_ready t = on_ready s \<and>
     (\<exists>new. ws' = ws @ new \<and> (\<forall>(b, n) \<in> set new. length b \<le> n)) \<and>
     (if \<not> stopped t \<and> writing t then k + to_send q t \<le> to_send q s else k \<le> to_send q s + 1) \<and>
     (stopped t \<longrightarrow> on_ready s = ReadyThen True \<or> (\<exists>x. table_find 0 (streams t) = Some x \<and> st x = Closed)) \<and>
     (\<not> stopped t \<longrightarrow> \<not> writing t \<longrightarrow> k = 0 \<or> to_send q t = 0)"

lemma flushed_step:
  assumes "drains p q" and "counts_output p out" and "flushed out q ws s g k ws1 t" and "full_write p (ws1, t) (ws2, v)"
  shows "flushed out q ws s g (Suc k) ws2 v"
proof -
  obtain g' more where g': "ng t = Some g'" "out g' = out g @ more" "length more + q g' = q g"
    using assms(3) by (auto simp: flushed_def handed_def)
  have ok: "run_ok out (issued ws1) t"
    using assms(3) by (simp add: flushed_def)
  note step = full_write_step [OF assms(1,2) ok g'(1) assms(4)]
  have running: "\<not> stopped t" "writing t"
    using assms(4) ok by (auto elim!: full_writeE dest: take_write(1))
  have "handed out q g v"
    using step(4) g'(2,3) by (auto simp: handed_def)
  moreover have "\<exists>new. ws2 = ws @ new \<and> (\<forall>(b, n) \<in> set new. length b \<le> n)"
  proof -
    obtain new b where "ws2 = ws @ new @ [(b, length b)]" "\<forall>(b, n) \<in> set new. length b \<le> n"
      using assms(3) step(2) by (auto simp: flushed_def)
    then show ?thesis
      by (intro exI [of _ "new @ [(b, length b)]"]) auto
  qed
  moreover have "on_ready v = on_ready s" "k + to_send q t \<le> to_send q s"
    using assms(3) step(3) running by (simp_all add: flushed_def)
  ultimately show ?thesis
    using step(1,5) assms(3) by (auto simp: flushed_def progress_def)
qed

lemma flushed_steps:
  assumes "drains p q" and "counts_output p out" and "run_ok out (issued ws) s" and "\<not> stopped s" and "ng s = Some g"
    and "(full_write p ^^ k) (ws, s) (ws', t)"
  shows "flushed out q ws s g k ws' t"
proof -
  have "(full_write p ^^ k) (ws, s) y \<Longrightarrow> flushed out q ws s g k (fst y) (snd y)" for y
  proof (induction k arbitrary: y)
    case 0
    then show ?case
      using assms(3-5) by (auto simp: flushed_def handed_def)
  next
    case (Suc k)
    then obtain z where "(full_write p ^^ k) (ws, s) z" "full_write p z y"
      by auto
    then show ?case
      using flushed_step [OF assms(1,2) Suc.IH, of z "fst y" "snd y"] by simp
  qed
  from this [OF assms(6)] show ?thesis
    by simp
qed

lemma write_goes_on:
  assumes "drains p q" and "counts_output p out" and "run_ok out (issued ws) s" and "\<not> stopped s" and "writing s"
  shows "\<exists>y. full_write p (ws, s) y"
proof -
  have "writes_of (ops s) = [wb s]"
    using assms(3-5) by (simp add: run_ok_def between_def)
  then have "\<exists>xs ys. ops s = xs @ WriteOp (wb s) # ys"
    using writes_of_split by blast
  then obtain xs ys where o: "ops s = xs @ WriteOp (wb s) # ys"
    by blast
  then obtain s' where "write_done p False (length (wb s)) (s\<lparr>ops := xs @ ys\<rparr>) = Inr s'"
    using write_done_ok [OF assms(2) drains_bound [OF assms(1)] assms(3) o] by blast
  then show ?thesis
    using full_write.full_write [OF assms(4) o] by blast
qed

text \<open>
  C10: Output drains. Take a session that is writing, between two of its handlers, and let its write and every
  one that follows it complete in full. None of these completions fails, there are at most as many as bytes are
  left to send, and one more; and when no further one can follow, then either the session was stopped, which a
  synchronous request does when its stream ends and the handler does when stream 0 is closed, or the socket has
  taken what was in the buffer and pending and then every byte nghttp2 had queued, and nothing is being written.
\<close>

theorem output_drains:
  assumes "counts_output p out" and "drains p q" and "run_ok out (issued ws) s" and "\<not> stopped s" and "writing s"
    and "ng s = Some g" and "(full_write p ^^ k) (ws, s) (ws', t)"
  shows "k \<le> length (pending_bytes s) + q g + 1 \<and>
    ((\<exists>y. full_write p (ws', t) y) \<or>
     stopped t \<and> (on_ready s = ReadyThen True \<or> (\<exists>x. table_find 0 (streams t) = Some x \<and> st x = Closed)) \<or>
     \<not> writing t \<and> backlog t = [] \<and>
       (\<exists>g' more. ng t = Some g' \<and> q g' = 0 \<and> length more = q g \<and> out g' = out g @ more \<and>
          taken ws' = taken ws @ backlog s @ more))"
proof -
  have f: "flushed out q ws s g k ws' t"
    by (rule flushed_steps [OF assms(2,1,3,4,6,7)])
  then have ok: "run_ok out (issued ws') t"
    by (simp add: flushed_def)
  obtain g' more where g': "ng t = Some g'" "out g' = out g @ more" "length more + q g' = q g"
    using f by (auto simp: flushed_def handed_def)
  have count: "k \<le> length (pending_bytes s) + q g + 1"
    using f assms(6) by (auto simp: flushed_def to_send_def split: if_splits)
  obtain new where new: "ws' = ws @ new" "\<forall>(b, n) \<in> set new. length b \<le> n"
    using f by (auto simp: flushed_def)
  consider "stopped t" | "\<not> stopped t" "writing t" | "\<not> stopped t" "\<not> writing t" by blast
  then show ?thesis
  proof cases
    case 1
    then show ?thesis
      using f count by (auto simp: flushed_def)
  next
    case 2
    then show ?thesis
      using write_goes_on [OF assms(2,1) ok] count by blast
  next
    case 3
    have "k \<noteq> 0"
      using 3 assms(5,7) by (cases k) auto
    then have "q g' = 0" "backlog t = []" "out g' = issued ws'"
      using f 3 g'(1) ok by (auto simp: flushed_def to_send_def run_ok_def between_def backlog_def)
    moreover have "out g = issued ws @ backlog s"
      using assms(3,4,6) by (simp add: run_ok_def between_def)
    ultimately have "issued new = backlog s @ more"
      using g'(2) new(1) by (simp add: issued_def)
    moreover have "taken ws' = taken ws @ issued new"
      using taken_full [OF new(2)] new(1) by (simp add: taken_def issued_def)
    ultimately show ?thesis
      using 3 count g' \<open>q g' = 0\<close> \<open>backlog t = []\<close> by auto
  qed
qed

section \<open>Applied to a concrete session\<close>

theorem write_returns_within_the_buffer_witness:
  "\<exists>t. do_write sample_platform idle_sample = Inr t \<and> length (wb t) \<le> wb_size \<and> \<not> insideCb t \<and>
     (ops t = ops idle_sample \<or> ops t = ops idle_sample @ [WriteOp (wb t)] \<and> wb t \<noteq> [] \<and> writing t)"
  by (rule write_returns_within_the_buffer)
     (simp_all add: idle_sample_def connected_sample_def new_session_def backlog_def pending_bytes_def)

lemma sample_drains: "drains sample_platform (\<lambda>g. length (fst g))"
  by (auto simp: drains_def sample_platform_def wb_size_value)

definition queued_sample :: "(byte list \<times> byte list) session" where
  "queued_sample = connected_sample\<lparr>ng := Some ([4, 5], [1, 2, 3])\<rparr>"

lemma queued_steps:
  "(full_write sample_platform ^^ 2) ([], queued_sample)
     ([([1, 2, 3], 3), ([4, 5], 2)], idle_sample\<lparr>ng := Some ([], [1, 2, 3, 4, 5])\<rparr>)"
proof -
  let ?mid = "queued_sample\<lparr>ng := Some ([], [1, 2, 3, 4, 5]), wb := [4, 5], ops := [ReadOp, PingOp, WriteOp [4, 5]]\<rparr>"
  let ?fin = "idle_sample\<lparr>ng := Some ([], [1, 2, 3, 4, 5])\<rparr>"
  note defs = queued_sample_def idle_sample_def connected_sample_def new_session_def write_done_def do_write_def
    copy_pending_def locked_def fill.simps handle_all_def sample_platform_def wb_size_value Let_def start_op_def
  have "full_write sample_platform ([], queued_sample) ([] @ [([1, 2, 3], length [1, 2, 3 :: byte])], ?mid)"
    by (rule full_write.full_write [of _ "[]" _ "[ReadOp, PingOp]"]) (simp_all add: defs)
  moreover have "full_write sample_platform ([([1, 2, 3], 3)], ?mid)
      ([([1, 2, 3], 3)] @ [([4, 5], length [4, 5 :: byte])], ?fin)"
    by (rule full_write.full_write [of _ "[ReadOp, PingOp]" _ "[]"]) (simp_all add: defs)
  ultimately have "(full_write sample_platform OO full_write sample_platform) ([], queued_sample)
      ([([1, 2, 3], 3), ([4, 5], 2)], ?fin)"
    by (intro relcomppI) (simp_all add: numeral_eq_Suc)
  then show ?thesis
    by (simp add: numeral_2_eq_2 eq_OO)
qed

theorem output_drains_witness:
  "backlog (idle_sample\<lparr>ng := Some ([], [1, 2, 3, 4, 5])\<rparr>) = [] \<and>
   taken [([1, 2, 3], 3), ([4, 5], 2)] = taken [] @ backlog queued_sample @ [4, 5] \<and>
   2 \<le> length (pending_bytes queued_sample) + length (fst ([4 :: byte, 5], [1 :: byte, 2, 3])) + 1"
proof -
  let ?t = "idle_sample\<lparr>ng := Some ([], [1, 2, 3, 4, 5])\<rparr>" and ?ws = "[([1, 2, 3], 3), ([4, 5], 2)]"
  have ok: "run_ok snd (issued []) queued_sample" "\<not> stopped queued_sample" "writing queued_sample"
      "ng queued_sample = Some ([4, 5], [1, 2, 3])"
    by (simp_all add: run_ok_def between_def queued_sample_def connected_sample_def new_session_def backlog_def
        pending_bytes_def wb_size_value)
  have "\<not> full_write sample_platform (?ws, ?t) y" for y
    using full_write_op [of sample_platform "(?ws, ?t)" y] by (auto simp: idle_sample_def)
  then show ?thesis
    using output_drains [OF sample_laws(1) sample_drains ok queued_steps]
    by (auto simp: idle_sample_def connected_sample_def new_session_def)
qed

end
