(* ===== verification/Session_Ops.thy ===== *)
theory Session_Ops
  imports Session_Run
begin

text \<open>
  The operations a session has under way. Its buffers are shared by all reads and all writes, so it must
  never have two of a kind started; and because the ping timer is started again by its own handler, also
  when the wait was cancelled, the io service never runs out of work.
\<close>

section \<open>One of each\<close>

text \<open>At most one read and one write are under way, a write only while \<open>writing\<close>, and exactly one ping wait.\<close>

definition ops_ok :: "'ng session \<Rightarrow> bool" where
  "ops_ok s \<longleftrightarrow>
     count_list (ops s) ReadOp \<le> 1 \<and> count_list (ops s) PingOp = 1 \<and>
     length (writes_of (ops s)) \<le> (if writing s then 1 else 0)"

text \<open>What a handler may start when it begins with \<open>r\<close> reads and \<open>w\<close> waits under way.\<close>

definition ops_count :: "nat \<Rightarrow> nat \<Rightarrow> 'ng session \<Rightarrow> bool" where
  "ops_count r w s \<longleftrightarrow>
     count_list (ops s) ReadOp \<le> r \<and> count_list (ops s) PingOp = w \<and>
     length (writes_of (ops s)) \<le> (if writing s then 1 else 0)"

lemma ops_ok_count: "ops_ok s = ops_count (Suc 0) (Suc 0) s"
  by (auto simp: ops_ok_def ops_count_def)

lemma ops_count_frame [simp]:
  "ops_count r w (stop s) = ops_count r w s" "ops_count r w (s\<lparr>parser := u\<rparr>) = ops_count r w s"
  "ops_count r w (s\<lparr>ng := g\<rparr>) = ops_count r w s" "ops_count r w (s\<lparr>insideCb := b\<rparr>) = ops_count r w s"
  "ops_count r w (s\<lparr>streams := m\<rparr>) = ops_count r w s" "ops_count r w (s\<lparr>wb := d\<rparr>) = ops_count r w s"
  "ops_count r w (s\<lparr>data_pending := q\<rparr>) = ops_count r w s" "ops_count r w (s\<lparr>stopped := b\<rparr>) = ops_count r w s"
  "ops_count r w (handle_all fr es s) = ops_count r w s"
  by (simp_all add: ops_count_def)

lemma ops_count_read: "ops_count r w s \<Longrightarrow> ops_count (Suc r) w (do_read s)"
  by (auto simp: do_read_def start_op_def ops_count_def)

lemma ops_count_ping: "ops_count r w s \<Longrightarrow> ops_count r (Suc w) (startPing s)"
  by (auto simp: startPing_def start_op_def ops_count_def)

lemma fill_ops: "fill p g s = (t, a) \<Longrightarrow> ops t = ops s \<and> writing t = writing s"
proof (induction p g s arbitrary: t rule: fill.induct)
  case (1 p g s)
  obtain g' fs r where send: "mem_send p g = (g', fs, r)"
    by (metis prod.exhaust)
  define u where "u = handle_all (find_raw p) fs (s\<lparr>ng := Some g'\<rparr>)"
  have u: "ops u = ops s" "writing u = writing s"
    by (simp_all add: u_def)
  show ?case
  proof (cases r)
    case SendNoMem
    then show ?thesis
      using "1.prems" u send by (auto simp: fill.simps [of p g s] u_def [symmetric] Let_def)
  next
    case (SendChunk d)
    have step: "fill p g s =
        (if d = [] then (u, False)
         else if length (wb u) + length d > wb_size then (u\<lparr>data_pending := Some d\<rparr>, False)
         else fill p g' (u\<lparr>wb := wb u @ d\<rparr>))"
      by (simp add: fill.simps [of p g s] send SendChunk u_def Let_def)
    then show ?thesis
      using "1.IH" [OF send [symmetric] refl u_def SendChunk] "1.prems" u by (auto split: if_splits)
  qed
qed

lemma do_write_ops:
  assumes "ops_count r w s" and "do_write p s = Inr t"
  shows "ops_count r w t"
proof (cases "stopped s \<or> writing s")
  case True
  then show ?thesis
    using assms by (cases "stopped s") (simp_all add: do_write_def)
next
  case False
  then obtain u where u: "copy_pending s = Inr u" and run: "(if insideCb u then Inl SelfDeadlock
        else case ng u of None \<Rightarrow> Inl NullDeref
        | Some g \<Rightarrow> (case locked (fill p g) u of (s, aborted) \<Rightarrow>
            if aborted then Inr s else if wb s = [] then Inr s
            else Inr (writeSocket (s\<lparr>writing := True\<rparr>)))) = Inr t"
    using assms(2) by (auto simp: do_write_def and_then_Inr_iff simp del: writeSocket_def)
  have "ops u = ops s" "writing u = writing s"
    using u by (auto simp: copy_pending_def split: option.splits if_splits)
  then show ?thesis
    using run False assms(1)
    by (auto simp: locked_def ops_count_def start_op_def dest!: fill_ops split: option.splits prod.splits if_splits)
qed

lemma take_ops:
  "ops s = xs @ ReadOp # ys \<Longrightarrow> ops_count (Suc r) w s \<Longrightarrow> ops_count r w (s\<lparr>ops := xs @ ys\<rparr>)"
  "ops s = xs @ PingOp # ys \<Longrightarrow> ops_count r (Suc w) s \<Longrightarrow> ops_count r w (s\<lparr>ops := xs @ ys\<rparr>)"
  "ops s = xs @ WriteOp b # ys \<Longrightarrow> ops_count r w s \<Longrightarrow>
     ops_count r w (s\<lparr>ops := xs @ ys\<rparr>) \<and> writes_of (xs @ ys) = []"
  by (auto simp: ops_count_def split: if_splits)

lemma write_done_ops:
  assumes "ops_count r w s" and "writes_of (ops s) = []" and "write_done p failed n s = Inr t"
  shows "ops_count r w t"
proof -
  have "ops_count r w (s\<lparr>wb := [], writing := False\<rparr>)"
    using assms(1,2) by (simp add: ops_count_def)
  then show ?thesis
    using assms(1,3) by (auto simp: write_done_def intro: do_write_ops split: if_splits)
qed

lemma read_done_ops:
  assumes "ops_count r w s" and "read_done p failed buf s = Inr t"
  shows "ops_count (Suc r) w t"
proof -
  have step: "ops_count r w v \<Longrightarrow> ops_count (Suc r) w v" for v :: "'a session"
    by (simp add: ops_count_def)
  show ?thesis
  proof (cases "buf = [] \<or> failed")
    case True
    then show ?thesis
      using assms step by (auto simp: read_done_def split: if_splits)
  next
    case False
    then obtain g g' es rv where recv: "mem_recv p g buf = (g', es, rv)" "\<not> insideCb s" "ng s = Some g"
      using assms(2) by (cases "ng s") (auto simp: read_done_def split: if_splits prod.splits)
    define u where "u = fst (locked (\<lambda>s. (handle_all (find_raw p) es (s\<lparr>ng := Some g'\<rparr>), ())) s)"
    have u: "ops_count r w u"
      using assms(1) by (simp add: u_def locked_def)
    have halt: "ops_count (Suc r) w v" if "do_write p u = Inr v" for v
      using do_write_ops [OF u that] by (rule step)
    show ?thesis
      using assms(2) False recv step [OF u] halt do_write_ops [OF u]
      by (auto simp: read_done_def u_def [symmetric] and_then_Inr_iff split: if_splits intro: ops_count_read)
  qed
qed

lemma ping_fired_ops:
  assumes "ops_count r w s" and "ping_fired p aborted s = Inr t"
  shows "ops_count r (Suc w) t"
proof -
  have "ops_count r w u" if "submitPing p aborted s = Inr u" for u
    using assms(1) that by (auto simp: submitPing_def split: if_splits option.splits)
  then show ?thesis
    using assms(2) by (auto simp: ping_fired_def and_then_Inr_iff intro: ops_count_ping do_write_ops)
qed

lemma submit_ops:
  assumes "ops_count r w s" and "submit p url meth hdr sid weight excl prov s = Inr (t, e, i)"
  shows "ops_count r w t"
proof -
  have try_write: "ops_count r w v" if "ops_count r w u" "try_write p u = Inr v" for u v
    using that by (auto simp: try_write_def and_then_Inr_iff dest!: do_write_ops [rotated] split: if_splits)
  show ?thesis
    using assms
    by (auto simp: submit_def Let_def and_then_Inr_iff register_stream_def
        dest!: try_write [rotated] split: if_splits prod.splits option.splits)
qed

lemma io_step_ops:
  assumes "ops_ok s" and "io_step p (ws, s) (ws', t)"
  shows "ops_ok t"
  using assms(2)
proof (cases rule: io_step.cases)
  case (received xs ys failed buf)
  then show ?thesis
    using assms(1) read_done_ops [OF take_ops(1)] by (simp add: ops_ok_count)
next
  case (pinged xs ys aborted)
  then show ?thesis
    using assms(1) ping_fired_ops [OF take_ops(2)] by (simp add: ops_ok_count)
next
  case (going_away)
  then show ?thesis
    using assms(1) by (auto simp: goAway_def ops_ok_count split: option.splits if_splits)
qed (use assms(1) in \<open>auto simp: ops_ok_count dest!: take_ops(3) dest: write_done_ops [rotated 2] submit_ops [rotated]\<close>)

lemma connected_ops:
  assumes "fresh s" and "client_new p = Some g0" and "onSocketConnected p s = Inr t"
  shows "ops_ok t"
proof -
  have start: "ops_count 0 0 (s\<lparr>stopped := False, ng := g\<rparr>)" for g
    using assms(1) by (simp add: fresh_def ops_count_def)
  show ?thesis
    using assms do_write_ops [OF start]
    by (auto simp: onSocketConnected_def setupSession_def fresh_def and_then_Inr_iff ops_ok_count
        intro!: ops_count_ping [where w = 0, simplified] ops_count_read [where r = 0, simplified])
qed

text \<open>
  C11: In every state a connected session reaches, at most one read and at most one write are under way
  (the read buffer and the write buffer are never shared by two operations), and exactly one wait of the
  ping timer: its handler starts the next wait even when it was cancelled, so the io service always has
  work and \<open>run\<close> returns only when it is stopped.
\<close>

theorem one_operation_of_each:
  assumes "fresh s0" and "client_new p = Some g0" and "onSocketConnected p s0 = Inr s1"
    and "(io_step p)\<^sup>*\<^sup>* ([], s1) (ws, s)"
  shows "count_list (ops s) ReadOp \<le> 1 \<and> length (writes_of (ops s)) \<le> 1 \<and> count_list (ops s) PingOp = 1"
proof -
  have "ops_ok (snd x)" if "(io_step p)\<^sup>*\<^sup>* ([], s1) x" for x
    using that
  proof (induction rule: rtranclp_induct)
    case base
    then show ?case
      using connected_ops [OF assms(1-3)] by simp
  next
    case (step y z)
    then show ?case
      using io_step_ops [of "snd y" p "fst y" "fst z" "snd z"] by simp
  qed
  from this [OF assms(4)] show ?thesis
    by (auto simp: ops_ok_def split: if_splits)
qed

theorem one_operation_of_each_witness:
  "count_list (ops idle_sample) ReadOp \<le> 1 \<and> length (writes_of (ops idle_sample)) \<le> 1 \<and>
   count_list (ops idle_sample) PingOp = 1"
  by (rule one_operation_of_each [OF sample_laws(5,3) sample_connected sample_run])

end
