(* ===== verification/Alpn.thy ===== *)
theory Alpn
  imports Text_Utils
begin

text \<open>
  \<open>utils::ssl\<close> of \<open>utilities.h\<close> and \<open>tls_h2_negotiated\<close> of \<open>sessionutil.h\<close>: the protocol list the
  client offers in the TLS handshake, the selection of an HTTP/2 protocol from the list a server
  offers, and the test of what was negotiated. The pointers \<open>out\<close> and \<open>p\<close> into the server's list
  are positions in it. What OpenSSL answers (the negotiated protocol) is an argument.
\<close>

section \<open>The protocol identifiers on the wire\<close>

definition NGHTTP2_H2_ALPN :: "byte list" where
  "NGHTTP2_H2_ALPN = bytes (CHR 0x02 # ''h2'')"

definition NGHTTP2_H2_16_ALPN :: "byte list" where
  "NGHTTP2_H2_16_ALPN = bytes (CHR 0x05 # ''h2-16'')"

definition NGHTTP2_H2_14_ALPN :: "byte list" where
  "NGHTTP2_H2_14_ALPN = bytes (CHR 0x05 # ''h2-14'')"

definition getDefaultAlpn :: "byte list" where
  "getDefaultAlpn = NGHTTP2_H2_ALPN @ NGHTTP2_H2_16_ALPN @ NGHTTP2_H2_14_ALPN"

section \<open>Selecting a protocol\<close>

text \<open>
  A read through a pointer into the server's list; behind its end it leaves the object. \<open>std::equal\<close> reads
  the list from \<open>p\<close> on until the first byte that differs from the key.
\<close>

definition read_at :: "byte list \<Rightarrow> nat \<Rightarrow> fault + byte" where
  "read_at inp p = (if p < length inp then Inr (inp ! p) else Inl BadAccess)"

fun equal_at :: "byte list \<Rightarrow> nat \<Rightarrow> byte list \<Rightarrow> fault + bool" where
  "equal_at inp p [] = Inr True"
| "equal_at inp p (k # ks) =
     and_then (read_at inp p) (\<lambda>b. if k = b then equal_at inp (p + 1) ks else Inr False)"

text \<open>
  The loop of \<open>selectProto\<close> at position \<open>p\<close> of the list; it returns the position and the length of the
  selected identifier.
\<close>

function selectProto :: "byte list \<Rightarrow> nat \<Rightarrow> byte list \<Rightarrow> fault + (nat \<times> nat) option" where
  "selectProto inp p key =
     (if p + length key \<le> length inp then
        (case equal_at inp p key of
           Inl e \<Rightarrow> Inl e
         | Inr True \<Rightarrow> and_then (read_at inp p) (\<lambda>n. Inr (Some (p + 1, unat n)))
         | Inr False \<Rightarrow>
             (case read_at inp p of
                Inl e \<Rightarrow> Inl e
              | Inr n \<Rightarrow> selectProto inp (p + (unat n + 1)) key))
      else Inr None)"
  by pat_completeness auto

termination
  by (relation "measure (\<lambda>(inp, p, key). length inp - p)") (auto simp: read_at_def split: if_splits)

declare selectProto.simps [simp del]

definition selectH2 :: "byte list \<Rightarrow> fault + (nat \<times> nat) option" where
  "selectH2 inp =
     and_then (selectProto inp 0 NGHTTP2_H2_ALPN) (\<lambda>r. if r \<noteq> None then Inr r else
     and_then (selectProto inp 0 NGHTTP2_H2_16_ALPN) (\<lambda>r. if r \<noteq> None then Inr r else
     selectProto inp 0 NGHTTP2_H2_14_ALPN))"

datatype tlsext_err = SSL_TLSEXT_ERR_OK | SSL_TLSEXT_ERR_NOACK

definition clientSelectNextProtoCb ::
  "(nat \<times> nat) option \<Rightarrow> byte list \<Rightarrow> fault + (nat \<times> nat) option \<times> tlsext_err" where
  "clientSelectNextProtoCb out inp =
     and_then (selectH2 inp) (\<lambda>r. case r of
        None \<Rightarrow> Inr (out, SSL_TLSEXT_ERR_NOACK)
      | Some r \<Rightarrow> Inr (Some r, SSL_TLSEXT_ERR_OK))"

section \<open>The same scan without pointers\<close>

text \<open>\<open>scan p rest\<close> looks at the list from \<open>p\<close> on as a value; no access of the loop leaves the list.\<close>

function scan :: "nat \<Rightarrow> byte list \<Rightarrow> byte list \<Rightarrow> (nat \<times> nat) option" where
  "scan p rest key =
     (if length key \<le> length rest then
        (if take (length key) rest = key then Some (p + 1, unat (hd rest))
         else scan (p + unat (hd rest) + 1) (drop (unat (hd rest) + 1) rest) key)
      else None)"
  by pat_completeness auto

termination
proof (relation "measure (\<lambda>(p, rest, key). length rest)")
  fix p :: nat and rest key :: "byte list"
  assume "length key \<le> length rest" and "take (length key) rest \<noteq> key"
  then show "((p + unat (hd rest) + 1, drop (unat (hd rest) + 1) rest, key), p, rest, key)
      \<in> measure (\<lambda>(p, rest, key). length rest)"
    by (cases rest) auto
qed simp

declare scan.simps [simp del]

lemma equal_at_take:
  "p + length key \<le> length inp \<Longrightarrow> equal_at inp p key = Inr (take (length key) (drop p inp) = key)"
proof (induction key arbitrary: p)
  case (Cons k ks)
  then have "drop p inp = inp ! p # drop (Suc p) inp" and "p < length inp"
    by (simp_all add: Cons_nth_drop_Suc)
  then show ?case
    using Cons by (auto simp: read_at_def)
qed simp

lemma selectProto_scan: "key \<noteq> [] \<Longrightarrow> selectProto inp p key = Inr (scan p (drop p inp) key)"
proof (induction inp p key rule: selectProto.induct)
  case (1 inp p key)
  show ?case
  proof (cases "p + length key \<le> length inp")
    case False
    then have "\<not> length key \<le> length (drop p inp)"
      using 1(2) by (cases key) auto
    then show ?thesis
      using False by (simp add: selectProto.simps [of inp p] scan.simps [of p])
  next
    case True
    then have p: "p < length inp" "read_at inp p = Inr (inp ! p)" "hd (drop p inp) = inp ! p"
        "length key \<le> length (drop p inp)"
      using 1(2) by (cases key; auto simp: read_at_def hd_drop_conv_nth)+
    show ?thesis
    proof (cases "take (length key) (drop p inp) = key")
      case same: True
      then have "equal_at inp p key = Inr True"
        using equal_at_take [OF True] by simp
      then have "selectProto inp p key = Inr (Some (p + 1, unat (inp ! p)))"
        using True p(2) by (simp add: selectProto.simps [of inp p])
      moreover have "scan p (drop p inp) key = Some (p + 1, unat (inp ! p))"
        using same p(3,4) by (simp add: scan.simps [of p])
      ultimately show ?thesis by simp
    next
      case other: False
      then have eq: "equal_at inp p key = Inr False"
        using equal_at_take [OF True] by simp
      then have "selectProto inp p key = selectProto inp (p + (unat (inp ! p) + 1)) key"
        using True p(2) by (simp add: selectProto.simps [of inp p])
      also have "\<dots> = Inr (scan (p + (unat (inp ! p) + 1)) (drop (p + (unat (inp ! p) + 1)) inp) key)"
        using 1(1) [OF True eq refl p(2) 1(2)] by simp
      also have "\<dots> = Inr (scan p (drop p inp) key)"
        using other p(3,4) by (simp add: scan.simps [of p "drop p inp"] add.assoc add.commute)
      finally show ?thesis .
    qed
  qed
qed

text \<open>
  The TLS context of OpenSSL, as far as \<open>utils::ssl\<close> sets it up. \<open>add_failed\<close> is whether OpenSSL refuses
  a certificate; the second component of the results is whether the error code is set.
\<close>

record tls_context =
  alpn_protos :: "byte list"
  next_proto_select :: bool
  authorities :: "string list"

definition new_tls_context :: tls_context where
  "new_tls_context = \<lparr>alpn_protos = [], next_proto_select = False, authorities = []\<rparr>"

definition loadCertificate :: "(string \<Rightarrow> bool) \<Rightarrow> string \<Rightarrow> tls_context \<Rightarrow> tls_context \<times> bool" where
  "loadCertificate add_failed cert ctx =
     (if cert = [] then (ctx, False)
      else if add_failed cert then (ctx, True)
      else (ctx\<lparr>authorities := authorities ctx @ [cert]\<rparr>, False))"

definition configureTlsContext :: "tls_context \<Rightarrow> tls_context \<times> bool" where
  "configureTlsContext ctx = (ctx\<lparr>next_proto_select := True, alpn_protos := getDefaultAlpn\<rparr>, False)"

text \<open>\<open>npn\<close> and \<open>alpn\<close> are the answers of the two OpenSSL queries, \<open>None\<close> for a null pointer.\<close>

definition tls_h2_negotiated :: "string option \<Rightarrow> string option \<Rightarrow> bool" where
  "tls_h2_negotiated npn alpn =
     (case (case npn of None \<Rightarrow> alpn | Some p \<Rightarrow> Some p) of
        None \<Rightarrow> False
      | Some sv \<Rightarrow> check_h2_is_selected sv)"

section \<open>The encoding of a protocol list\<close>

definition wire_entry :: "string \<Rightarrow> byte list" where
  "wire_entry s = of_nat (length s) # bytes s"

definition wire :: "string list \<Rightarrow> byte list" where
  "wire ps = concat (map wire_entry ps)"

definition protocols_ok :: "string list \<Rightarrow> bool" where
  "protocols_ok ps \<longleftrightarrow> (\<forall>s\<in>set ps. length s < 256)"

lemma alpn_entries:
  "NGHTTP2_H2_ALPN = wire_entry ''h2''"
  "NGHTTP2_H2_16_ALPN = wire_entry ''h2-16''"
  "NGHTTP2_H2_14_ALPN = wire_entry ''h2-14''"
  by code_simp+

lemma getDefaultAlpn_wire: "getDefaultAlpn = wire [''h2'', ''h2-16'', ''h2-14'']"
  by (simp add: getDefaultAlpn_def alpn_entries wire_def)

lemma length_wire_entry [simp]: "length (wire_entry s) = Suc (length s)"
  by (simp add: wire_entry_def)

lemma hd_wire_entry [simp]: "length s < 256 \<Longrightarrow> unat (hd (wire_entry s @ xs)) = length s"
  by (simp add: wire_entry_def unat_of_nat take_bit_eq_mod)

lemma drop_wire_entry [simp]: "drop (Suc (length s)) (wire_entry s @ xs) = xs"
  by (simp add: wire_entry_def)

text \<open>The length byte of an entry decides which bytes are compared: only the same entry matches.\<close>

lemma wire_entry_prefix:
  assumes "length s < 256" and "length k < 256"
  shows "take (Suc (length k)) (wire_entry s @ xs) = wire_entry k \<longleftrightarrow> s = k"
proof
  assume eq: "take (Suc (length k)) (wire_entry s @ xs) = wire_entry k"
  have "unat (of_nat (length s) :: byte) = unat (of_nat (length k) :: byte)"
    using eq by (simp add: wire_entry_def)
  then have "length s = length k"
    using assms by (simp add: unat_of_nat take_bit_eq_mod)
  then show "s = k"
    using eq by (simp add: wire_entry_def)
qed (simp add: wire_entry_def)

lemma scan_wire:
  assumes "protocols_ok ps" and "length k < 256"
  shows "scan p (wire ps) (wire_entry k) =
     (if k \<in> set ps
      then Some (p + length (wire (takeWhile (\<lambda>s. s \<noteq> k) ps)) + 1, length k) else None)"
  using assms(1)
proof (induction ps arbitrary: p)
  case Nil
  then show ?case
    by (simp add: scan.simps [of p] wire_def)
next
  case (Cons s ps)
  have s: "length s < 256" and ok: "protocols_ok ps"
    using Cons.prems by (auto simp: protocols_ok_def)
  have wire_Cons: "wire (s # ps) = wire_entry s @ wire ps"
    by (simp add: wire_def)
  show ?case
  proof (cases "length k \<le> length s + length (wire ps)")
    case True
    have "scan p (wire (s # ps)) (wire_entry k) =
        (if s = k then Some (p + 1, length s)
         else scan (p + length s + 1) (wire ps) (wire_entry k))"
      unfolding wire_Cons using True s assms(2)
      by (subst scan.simps) (simp add: wire_entry_prefix del: take_append)
    then show ?thesis
      using Cons.IH [OF ok, of "p + length s + 1"] by (auto simp: wire_def)
  next
    case False
    have "length k \<le> length (wire ps)" if "k \<in> set ps" for ps
      using that by (induction ps) (auto simp: wire_def)
    from this [of ps] have "k \<notin> set (s # ps)"
      using False by auto
    then show ?thesis
      using False by (subst scan.simps) (simp add: wire_Cons)
  qed
qed

lemma wire_at:
  assumes "k \<in> set ps"
  shows "take (length k) (drop (Suc (length (wire (takeWhile (\<lambda>s. s \<noteq> k) ps)))) (wire ps)) = bytes k"
proof -
  obtain xs ys where ps: "ps = xs @ k # ys" "k \<notin> set xs"
    using split_list_first [OF assms] by blast
  then have "takeWhile (\<lambda>s. s \<noteq> k) ps = xs"
    by (auto simp: takeWhile_tail)
  then show ?thesis
    using ps by (simp add: wire_def wire_entry_def)
qed

lemma alpn_nonempty: "NGHTTP2_H2_ALPN \<noteq> []" "NGHTTP2_H2_16_ALPN \<noteq> []" "NGHTTP2_H2_14_ALPN \<noteq> []"
  by (simp_all add: alpn_entries wire_entry_def)

lemma selectH2_scan:
  "selectH2 inp = Inr (case scan 0 inp NGHTTP2_H2_ALPN of
     Some r \<Rightarrow> Some r
   | None \<Rightarrow> (case scan 0 inp NGHTTP2_H2_16_ALPN of Some r \<Rightarrow> Some r | None \<Rightarrow> scan 0 inp NGHTTP2_H2_14_ALPN))"
  unfolding selectH2_def by (simp add: selectProto_scan alpn_nonempty split: option.split)

lemma selectH2_wire:
  assumes "protocols_ok ps"
  shows "selectH2 (wire ps) =
    Inr (map_option (\<lambda>k. (length (wire (takeWhile (\<lambda>s. s \<noteq> k) ps)) + 1, length k))
      (find (\<lambda>k. k \<in> set ps) [''h2'', ''h2-16'', ''h2-14'']))"
  using assms unfolding selectH2_scan alpn_entries
  by (simp add: scan_wire)

text \<open>
  C30: On a well-formed protocol list the callback selects the first of h2, h2-16 and h2-14 (in this
  order of preference) the server offers: it answers OK, and the position and length it stores are
  those of that identifier inside the list. If the server offers none of them it answers NOACK and
  stores nothing. No byte outside the list is read.
\<close>

theorem clientSelectNextProto_prefers_h2:
  assumes "protocols_ok ps"
  shows "case find (\<lambda>k. k \<in> set ps) [''h2'', ''h2-16'', ''h2-14''] of
      None \<Rightarrow> clientSelectNextProtoCb out (wire ps) = Inr (out, SSL_TLSEXT_ERR_NOACK)
    | Some k \<Rightarrow> \<exists>i. clientSelectNextProtoCb out (wire ps) = Inr (Some (i, length k), SSL_TLSEXT_ERR_OK) \<and>
        take (length k) (drop i (wire ps)) = bytes k"
proof (cases "find (\<lambda>k. k \<in> set ps) [''h2'', ''h2-16'', ''h2-14'']")
  case None
  then show ?thesis
    unfolding clientSelectNextProtoCb_def selectH2_wire [OF assms] by simp
next
  case (Some k)
  then have "k \<in> set ps"
    unfolding find_Some_iff by blast
  then show ?thesis
    unfolding clientSelectNextProtoCb_def selectH2_wire [OF assms] Some by (simp add: wire_at)
qed

theorem clientSelectNextProto_prefers_h2_witness:
  "\<exists>i. clientSelectNextProtoCb None (wire [''http/1.1'', ''h2-14'', ''h2'']) =
     Inr (Some (i, 2), SSL_TLSEXT_ERR_OK) \<and>
     take 2 (drop i (wire [''http/1.1'', ''h2-14'', ''h2''])) = bytes ''h2''"
  using clientSelectNextProto_prefers_h2 [of "[''http/1.1'', ''h2-14'', ''h2'']" None]
  by (simp add: protocols_ok_def numeral_2_eq_2)

section \<open>Any input\<close>

lemma scan_inside:
  assumes "scan p rest (wire_entry k) = Some (i, l)" and "length k < 256"
  shows "l = length k \<and> p < i \<and> take l (drop (i - p) rest) = bytes k \<and> i - p + l \<le> length rest"
  using assms(1)
proof (induction p rest "wire_entry k" rule: scan.induct)
  case (1 p rest)
  let ?n = "unat (hd rest)"
  show ?case
  proof (cases "length (wire_entry k) \<le> length rest \<and> take (length (wire_entry k)) rest = wire_entry k")
    case True
    then have "hd rest = of_nat (length k)" and "tl (take (length (wire_entry k)) rest) = bytes k"
      by (cases rest; simp add: wire_entry_def)+
    then have "i = p + 1" "l = length k" "take l (drop 1 rest) = bytes k" "length k < length rest"
      using 1(2) True assms(2)
      by (auto simp: scan.simps [of p] unat_of_nat take_bit_eq_mod drop_Suc tl_take)
    then show ?thesis by simp
  next
    case False
    then have rec: "length (wire_entry k) \<le> length rest"
        "take (length (wire_entry k)) rest \<noteq> wire_entry k"
        "scan (p + ?n + 1) (drop (?n + 1) rest) (wire_entry k) = Some (i, l)"
      using 1(2) by (auto simp: scan.simps [of p] split: if_splits)
    have IH: "l = length k" "p + ?n + 1 < i"
        "take l (drop (i - (p + ?n + 1)) (drop (?n + 1) rest)) = bytes k"
        "i - (p + ?n + 1) + l \<le> length (drop (?n + 1) rest)"
      using 1(1) [OF rec] by auto
    moreover have "i - (p + ?n + 1) + (?n + 1) = i - p"
      using IH(2) by simp
    ultimately show ?thesis
      by (auto simp: drop_drop)
  qed
qed

text \<open>
  C31: On any input, also one that is not a well-formed protocol list, no byte outside the input is read, and a
  selection stays inside the input: what it selects is one of the three HTTP/2 identifiers, which the
  later check of the negotiated protocol accepts.
\<close>

theorem selectH2_stays_inside:
  "\<exists>r. selectH2 inp = Inr r \<and>
     (\<forall>i l. r = Some (i, l) \<longrightarrow>
        i + l \<le> length inp \<and> tls_h2_negotiated None (Some (map char_of_byte (take l (drop i inp)))))"
proof -
  define r where "r = (case scan 0 inp NGHTTP2_H2_ALPN of
     Some r \<Rightarrow> Some r
   | None \<Rightarrow> (case scan 0 inp NGHTTP2_H2_16_ALPN of Some r \<Rightarrow> Some r | None \<Rightarrow> scan 0 inp NGHTTP2_H2_14_ALPN))"
  have "i + l \<le> length inp \<and> tls_h2_negotiated None (Some (map char_of_byte (take l (drop i inp))))"
    if "r = Some (i, l)" for i l
  proof -
    have "\<exists>k\<in>{''h2'', ''h2-16'', ''h2-14''}. scan 0 inp (wire_entry k) = Some (i, l)"
      using that by (auto simp: r_def alpn_entries split: option.splits)
    then obtain k where k: "k \<in> {''h2'', ''h2-16'', ''h2-14''}" "scan 0 inp (wire_entry k) = Some (i, l)"
      by blast
    then have "take l (drop i inp) = bytes k \<and> i + l \<le> length inp"
      using scan_inside [OF k(2)] by auto
    then show ?thesis
      using k(1) by (auto simp: tls_h2_negotiated_def check_h2_is_selected_def NGHTTP2_H2_def
          NGHTTP2_H2_16_def NGHTTP2_H2_14_def comp_def)
  qed
  then show ?thesis
    using selectH2_scan [of inp] by (auto simp: r_def)
qed

theorem selectH2_stays_inside_witness:
  "selectH2 [0, 9, 2, 104, 50] = Inr None \<and> selectH2 [0, 2, 104, 50] = Inr (Some (2, 2)) \<and>
   tls_h2_negotiated None (Some (map char_of_byte (take 2 (drop 2 [0, 2, 104, 50]))))"
proof -
  have "selectH2 [0, 2, 104, 50] = Inr (Some (2, 2))" and "selectH2 [0, 9, 2, 104, 50] = Inr None"
    by code_simp+
  then show ?thesis
    using selectH2_stays_inside [of "[0, 2, 104, 50]"] by auto
qed

end
