(* ===== verification/Tls_Session.thy ===== *)
theory Tls_Session
  imports Session_Run Alpn
begin

text \<open>
  \<open>HttpTlsSession\<close> (\<open>httptlssession.cpp\<close>): the session over TLS. Its \<open>submit\<close> overloads, the callback
  that feeds a request body to nghttp2, connecting, and the conversion between method names and
  \<open>Method\<close>, and the service a session is made for. The outcome of the TCP connection and the TLS handshake is an argument. \<open>readSocket\<close> and
  \<open>writeSocket\<close> only start the asynchronous operation (\<open>start_op\<close> in \<open>Session_Core\<close>), \<open>shutdownSocket\<close>
  stops the io service (the event \<open>SocketShutdown\<close>).
\<close>

section \<open>Methods\<close>

datatype http_method = Get | Post | Unknown_method

definition methodGet :: string where "methodGet = ''GET''"

definition methodPost :: string where "methodPost = ''POST''"

definition stringFromEnum :: "http_method \<Rightarrow> string" where
  "stringFromEnum m = (case m of Get \<Rightarrow> methodGet | Post \<Rightarrow> methodPost | Unknown_method \<Rightarrow> [])"

text \<open>
  \<open>std::equal\<close> over the range of the first string: it compares with the beginning of the second, whose
  terminating NUL ends the comparison if it is shorter.
\<close>

definition equal_range :: "string \<Rightarrow> string \<Rightarrow> bool" where
  "equal_range a b \<longleftrightarrow> take (length a) b = a"

definition methodFromString :: "string \<Rightarrow> http_method" where
  "methodFromString method =
     (let uppercase = to_upper method in
      if equal_range methodGet uppercase then Get
      else if equal_range methodPost uppercase then Post
      else Unknown_method)"

text \<open>
  C34: Method names and methods correspond: the name of a method is read back as that method, in any
  mixture of cases. But only the beginning of a name is compared: whatever follows it is accepted.
\<close>

theorem method_names_roundtrip:
  assumes "m \<noteq> Unknown_method" and "to_upper name = stringFromEnum m"
  shows "methodFromString (name @ rest) = m"
proof -
  have "to_upper (name @ rest) = stringFromEnum m @ to_upper rest"
    using assms(2) by (simp add: to_upper_def)
  then show ?thesis
    using assms(1)
    by (cases m) (simp_all add: methodFromString_def equal_range_def stringFromEnum_def methodGet_def methodPost_def)
qed

theorem method_names_roundtrip_witness:
  "methodFromString ''get'' = Get \<and> methodFromString ''Postpone'' = Post"
proof -
  have "to_upper ''get'' = stringFromEnum Get" and "to_upper ''Post'' = stringFromEnum Post"
    by code_simp+
  then show ?thesis
    using method_names_roundtrip [of Get "''get''" "[]"] method_names_roundtrip [of Post "''Post''" "''pone''"]
    by simp
qed

section \<open>Sending a body\<close>

text \<open>
  The read callback of the data provider: the bytes copied, what is left of the body, and whether the
  end-of-data flag was set.
\<close>

definition reciveCallback :: "string \<Rightarrow> nat \<Rightarrow> string \<times> string \<times> bool" where
  "reciveCallback body n =
     (let bodyLen = min (length body) n in
      if bodyLen > 0 then (take bodyLen body, drop bodyLen body, False) else ([], body, True))"

text \<open>Calling a read callback with a sequence of buffer sizes until it signals the end.\<close>

fun drain :: "('s \<Rightarrow> nat \<Rightarrow> 'b list \<times> 's \<times> bool) \<Rightarrow> nat list \<Rightarrow> 's \<Rightarrow> 'b list \<times> bool" where
  "drain rd [] s = ([], False)"
| "drain rd (n # ns) s =
     (case rd s n of
        (c, s', eof) \<Rightarrow>
          if eof then (c, True) else (case drain rd ns s' of (cs, e) \<Rightarrow> (c @ cs, e)))"

text \<open>What nghttp2 expects of a data source.\<close>

locale data_source =
  fixes rd :: "'s \<Rightarrow> nat \<Rightarrow> 'b list \<times> 's \<times> bool"
    and content :: "'s \<Rightarrow> 'b list"
  assumes rd_content: "0 < n \<Longrightarrow> rd s n = (c, s', eof) \<Longrightarrow> content s = c @ content s'"
    and rd_bound: "0 < n \<Longrightarrow> rd s n = (c, s', eof) \<Longrightarrow> length c \<le> n"
    and rd_eof: "0 < n \<Longrightarrow> rd s n = (c, s', eof) \<Longrightarrow> eof \<longleftrightarrow> content s = []"
    and rd_progress: "0 < n \<Longrightarrow> rd s n = (c, s', eof) \<Longrightarrow> \<not> eof \<Longrightarrow> c \<noteq> []"
begin

lemma drain_prefix:
  "\<forall>n\<in>set ns. 0 < n \<Longrightarrow> \<exists>rest. content s = fst (drain rd ns s) @ rest"
proof (induction ns arbitrary: s)
  case (Cons n ns)
  obtain c s' eof where step: "rd s n = (c, s', eof)"
    by (metis prod.exhaust)
  obtain rest where "content s' = fst (drain rd ns s') @ rest"
    using Cons by auto
  then show ?case
    using rd_content [OF _ step] Cons.prems by (auto simp: step split: prod.split)
qed simp

lemma drain_complete:
  "\<forall>n\<in>set ns. 0 < n \<Longrightarrow> length (content s) < length ns \<Longrightarrow> drain rd ns s = (content s, True)"
proof (induction ns arbitrary: s)
  case (Cons n ns)
  obtain c s' eof where step: "rd s n = (c, s', eof)"
    by (metis prod.exhaust)
  have n: "0 < n"
    using Cons.prems by simp
  show ?case
  proof (cases eof)
    case True
    then show ?thesis
      using rd_content [OF n step] rd_eof [OF n step] by (simp add: step)
  next
    case False
    then have "content s = c @ content s'" and "c \<noteq> []"
      using rd_content [OF n step] rd_progress [OF n step] by auto
    moreover from this have "length (content s') < length ns"
      using Cons.prems by (cases c) auto
    ultimately show ?thesis
      using Cons.IH [of s'] Cons.prems False by (simp add: step)
  qed
qed simp

end

interpretation body: data_source reciveCallback "\<lambda>b. b"
  by unfold_locales (auto simp: reciveCallback_def Let_def min_def split: if_splits)

text \<open>
  C23: The body of a request is sent exactly once and in order. However nghttp2 chooses the sizes of its
  buffers, the pieces the callback hands out, put together, are the whole body, and the end of data is
  signalled after at most one call per byte and one more.
\<close>

theorem body_sent_exactly_once:
  assumes "\<forall>n\<in>set sizes. 0 < n" and "length b < length sizes"
  shows "drain reciveCallback sizes b = (b, True)"
  using assms by (rule body.drain_complete)

theorem body_sent_exactly_once_witness:
  "drain reciveCallback [2, 1, 7, 3, 1, 1] ''hello'' = (''hello'', True)"
  by (rule body_sent_exactly_once) simp_all

section \<open>Submitting\<close>

definition tls_submit ::
  "'ng platform \<Rightarrow> string \<Rightarrow> string \<Rightarrow> fields \<Rightarrow> 32 word \<Rightarrow> 32 word \<Rightarrow> bool \<Rightarrow> 'ng session \<Rightarrow>
     fault + 'ng session \<times> errc \<times> int" where
  "tls_submit p url method hdr sid weight exclusive s =
     submit p url method hdr sid weight exclusive False s"

definition tls_submit_method ::
  "'ng platform \<Rightarrow> fields \<Rightarrow> string \<Rightarrow> http_method \<Rightarrow> 'ng session \<Rightarrow> fault + 'ng session \<times> errc \<times> int" where
  "tls_submit_method p hdr url method s = tls_submit p url (stringFromEnum method) hdr 0 0 False s"

definition tls_submit_body ::
  "'ng platform \<Rightarrow> fields \<Rightarrow> string \<Rightarrow> http_method \<Rightarrow> 'ng session \<Rightarrow> fault + 'ng session \<times> errc \<times> int" where
  "tls_submit_body p hdr url method s = submit p url (stringFromEnum method) hdr 0 0 False True s"

definition tls_submit_priority ::
  "'ng platform \<Rightarrow> fields \<Rightarrow> string \<Rightarrow> http_method \<Rightarrow> 32 word \<Rightarrow> 32 word \<Rightarrow> 'ng session \<Rightarrow>
     fault + 'ng session \<times> errc \<times> int" where
  "tls_submit_priority p hdr url method sid weight s =
     tls_submit p url (stringFromEnum method) hdr sid weight False s"

section \<open>The service\<close>

text \<open>
  \<open>NetService\<close> (\<open>netservice.h\<close>): the host and the port that are resolved, the name the TLS handshake sends
  (\<open>SSL_set_tlsext_host_name\<close>, given a C string) and the name the certificate of the server is checked against.
\<close>

record net_service =
  ns_host :: string
  ns_port :: string
  ns_server_name :: string
  ns_verified_name :: string

definition NetService :: "string \<Rightarrow> string \<Rightarrow> net_service" where
  "NetService hst srv =
     \<lparr>ns_host = hst, ns_port = srv, ns_server_name = takeWhile (\<lambda>c. c \<noteq> CHR 0x00) hst, ns_verified_name = hst\<rparr>"

text \<open>A session over TLS: the session itself and the service it connects to.\<close>

definition HttpTlsSession :: "byte list \<Rightarrow> string \<Rightarrow> string \<Rightarrow> 'ng session \<times> net_service" where
  "HttpTlsSession garbage hst srv = (new_session garbage, NetService hst srv)"

declare HttpTlsSession_def [simp]

section \<open>Connecting\<close>

datatype connect_outcome =
    ConnectFailed
  | HandshakeFailed
  | Handshaked "string option" "string option"  \<comment> \<open>the protocols OpenSSL answers, by NPN and by ALPN\<close>

text \<open>The session and whether the error code is set.\<close>

definition startConnect :: "connect_outcome \<Rightarrow> 'ng session \<Rightarrow> 'ng session \<times> bool" where
  "startConnect outcome s =
     (if \<not> isStopped s then (s, False)
      else case outcome of
        ConnectFailed \<Rightarrow> (s, True)
      | HandshakeFailed \<Rightarrow> (stop s, True)
      | Handshaked npn alpn \<Rightarrow> (if \<not> tls_h2_negotiated npn alpn then (s, False) else (s, False)))"

definition tls_startResolve ::
  "'ng platform \<Rightarrow> bool \<Rightarrow> connect_outcome \<Rightarrow> 'ng session \<Rightarrow> fault + 'ng session \<times> bool" where
  "tls_startResolve p resolve_failed outcome s =
     and_then (startResolve p resolve_failed (startConnect outcome) s) (\<lambda>t.
       Inr (t, \<not> (resolve_failed \<or> snd (startConnect outcome s))))"

text \<open>
  That the server does not speak HTTP/2 is not noticed. Connecting does exactly the same whatever
  protocol the handshake has negotiated, none included: no error is set and HTTP/2 frames are sent.
\<close>

theorem missing_h2_is_not_noticed:
  "tls_startResolve p resolve_failed (Handshaked npn alpn) s =
     tls_startResolve p resolve_failed (Handshaked npn' alpn') s"
  by (simp add: tls_startResolve_def startConnect_def startResolve_def)

text \<open>
  A failed resolution, connection or handshake is reported: the result is false, no operation is
  started, nothing is sent, and the session stays stopped.
\<close>

lemma failed_connection_reported:
  assumes "stopped s" and "resolve_failed \<or> outcome = ConnectFailed \<or> outcome = HandshakeFailed"
  shows "tls_startResolve p resolve_failed outcome s = Inr (s, False)"
proof -
  have "stop s = s"
    using assms(1) by (simp add: stop_def)
  then show ?thesis
    using assms by (auto simp: tls_startResolve_def startConnect_def startResolve_def)
qed

end
