(* ===== verification/Perl_Regex.thy ===== *)
theory Perl_Regex
  imports Base_Prelude
begin

text \<open>
  The part of Perl's regular expressions the patterns of the program are written in: their syntax, read by
  \<open>parse_regex\<close>, and their matching, as the documentation of Boost.Regex describes it for the Perl
  syntax. Characters, escaped characters, sets, the dot, line anchors, capturing groups, alternatives and
  greedy repetition. \<open>matches r st\<close> lists all the ways to match, in the order a backtracking matcher tries
  them; the first one is the match that is found.
\<close>

section \<open>Expressions and matching\<close>

datatype regex =
    Empty
  | Chars "(char \<times> char) list"  \<comment> \<open>one character of one of the ranges\<close>
  | LineStart
  | LineEnd
  | Seq regex regex
  | Alt regex regex
  | Repeat nat "nat option" regex
  | Group nat regex

text \<open>Where a matcher is: the character before, the text that is left, what the groups have captured.\<close>

type_synonym mstate = "char option \<times> string \<times> (nat \<times> string) list"

definition in_ranges :: "(char \<times> char) list \<Rightarrow> char \<Rightarrow> bool" where
  "in_ranges rs c \<longleftrightarrow> list_ex (\<lambda>(a, b). a \<le> c \<and> c \<le> b) rs"

definition separator :: "char \<Rightarrow> bool" where
  "separator c \<longleftrightarrow> c \<in> {CHR 0x0A, CHR 0x0C, CHR 0x0D}"

definition line_start :: "char option \<Rightarrow> string \<Rightarrow> bool" where
  "line_start p s \<longleftrightarrow>
     (case p of None \<Rightarrow> True | Some c \<Rightarrow> separator c \<and> \<not> (c = CHR 0x0D \<and> take 1 s = [CHR 0x0A]))"

definition line_end :: "char option \<Rightarrow> string \<Rightarrow> bool" where
  "line_end p s \<longleftrightarrow>
     (case s of [] \<Rightarrow> True | c # _ \<Rightarrow> separator c \<and> \<not> (p = Some (CHR 0x0D) \<and> c = CHR 0x0A))"

fun one_char :: "(char \<times> char) list \<Rightarrow> mstate \<Rightarrow> mstate list" where
  "one_char rs (p, [], cs) = []"
| "one_char rs (p, c # s, cs) = (if in_ranges rs c then [(Some c, s, cs)] else [])"

fun exactly :: "(mstate \<Rightarrow> mstate list) \<Rightarrow> nat \<Rightarrow> mstate \<Rightarrow> mstate list" where
  "exactly f 0 st = [st]"
| "exactly f (Suc n) st = concat (map (exactly f n) (f st))"

fun at_most :: "(mstate \<Rightarrow> mstate list) \<Rightarrow> nat \<Rightarrow> mstate \<Rightarrow> mstate list" where
  "at_most f 0 st = [st]"
| "at_most f (Suc n) st = concat (map (at_most f n) (f st)) @ [st]"

text \<open>
  Without an upper bound a repetition is tried as often as characters are left; for an expression that
  matches no empty text this is no bound.
\<close>

primrec matches :: "regex \<Rightarrow> mstate \<Rightarrow> mstate list" where
  "matches Empty st = [st]"
| "matches (Chars rs) st = one_char rs st"
| "matches LineStart st = (case st of (p, s, cs) \<Rightarrow> if line_start p s then [st] else [])"
| "matches LineEnd st = (case st of (p, s, cs) \<Rightarrow> if line_end p s then [st] else [])"
| "matches (Seq a b) st = concat (map (matches b) (matches a st))"
| "matches (Alt a b) st = matches a st @ matches b st"
| "matches (Repeat m mo a) st =
     concat (map (\<lambda>st. at_most (matches a) (case mo of Some n \<Rightarrow> n - m | None \<Rightarrow> length (fst (snd st))) st)
       (exactly (matches a) m st))"
| "matches (Group n a) st =
     (case st of (p, s, cs) \<Rightarrow>
        map (\<lambda>(p', s', cs'). (p', s', (n, take (length s - length s') s) # cs')) (matches a st))"

primrec consumes :: "regex \<Rightarrow> bool" where
  "consumes Empty = False"
| "consumes (Chars rs) = True"
| "consumes LineStart = False"
| "consumes LineEnd = False"
| "consumes (Seq a b) = (consumes a \<or> consumes b)"
| "consumes (Alt a b) = (consumes a \<and> consumes b)"
| "consumes (Repeat m mo a) = (0 < m \<and> consumes a)"
| "consumes (Group n a) = consumes a"

primrec loops_consume :: "regex \<Rightarrow> bool" where
  "loops_consume Empty = True"
| "loops_consume (Chars rs) = True"
| "loops_consume LineStart = True"
| "loops_consume LineEnd = True"
| "loops_consume (Seq a b) = (loops_consume a \<and> loops_consume b)"
| "loops_consume (Alt a b) = (loops_consume a \<and> loops_consume b)"
| "loops_consume (Repeat m mo a) = (consumes a \<and> loops_consume a)"
| "loops_consume (Group n a) = loops_consume a"

text \<open>
  Searching tries every position from the left; the result is the whole match and the last text of every
  group, empty if the group took no part. Matching asks for a way to match the whole text.
\<close>

fun search_from :: "regex \<Rightarrow> char option \<Rightarrow> string \<Rightarrow> (string \<times> (nat \<times> string) list) option" where
  "search_from r p [] =
     (case matches r (p, [], []) of [] \<Rightarrow> None | (p', s', cs) # _ \<Rightarrow> Some ([], cs))"
| "search_from r p (c # s) =
     (case matches r (p, c # s, []) of
        [] \<Rightarrow> search_from r (Some c) s
      | (p', s', cs) # _ \<Rightarrow> Some (take (length (c # s) - length s') (c # s), cs))"

definition perl_search :: "regex \<Rightarrow> nat \<Rightarrow> string \<Rightarrow> string list option" where
  "perl_search r n s =
     map_option (\<lambda>(w, cs). w # map (\<lambda>i. case map_of cs i of None \<Rightarrow> [] | Some t \<Rightarrow> t) [1..<Suc n])
       (search_from r None s)"

definition perl_match :: "regex \<Rightarrow> string \<Rightarrow> bool" where
  "perl_match r s \<longleftrightarrow> list_ex (\<lambda>(p, s', cs). s' = []) (matches r (None, s, []))"

section \<open>Reading a pattern\<close>

definition backslash :: char where "backslash = CHR 0x5C"

definition special :: "char \<Rightarrow> bool" where
  "special c \<longleftrightarrow> c \<in> set ''.[]{}()*+?|^$'' \<or> c = backslash"

definition word_char :: "char \<Rightarrow> bool" where
  "word_char c \<longleftrightarrow> in_ranges [(CHR ''a'', CHR ''z''), (CHR ''A'', CHR ''Z''), (CHR ''0'', CHR ''9'')] c \<or> c = CHR ''_''"

text \<open>A character of a set: a punctuation character behind a backslash stands for itself.\<close>

fun set_char :: "string \<Rightarrow> (char \<times> string) option" where
  "set_char [] = None"
| "set_char [c] = (if c \<in> {backslash, CHR '']'', CHR ''[''} then None else Some (c, []))"
| "set_char (c # d # s) =
     (if c = backslash then (if word_char d then None else Some (d, s))
      else if c \<in> {CHR '']'', CHR ''[''} then None
      else Some (c, d # s))"

text \<open>The items of a set up to its closing bracket; the number bounds the recursion.\<close>

fun set_items :: "nat \<Rightarrow> string \<Rightarrow> ((char \<times> char) list \<times> string) option" where
  "set_items 0 s = None"
| "set_items (Suc k) s =
     (if take 1 s = '']'' then Some ([], drop 1 s)
      else case set_char s of
        None \<Rightarrow> None
      | Some (a, s) \<Rightarrow>
          (case (if take 1 s = ''-'' \<and> take 1 (drop 1 s) \<noteq> '']'' then set_char (drop 1 s) else Some (a, s)) of
             None \<Rightarrow> None
           | Some (b, s) \<Rightarrow>
               (case set_items k s of None \<Rightarrow> None | Some (rs, s) \<Rightarrow> Some ((a, b) # rs, s))))"

definition number :: "string \<Rightarrow> (nat \<times> string) option" where
  "number s =
     (let d = takeWhile is_dec s in if d = [] then None else Some (decimal d, drop (length d) s))"

text \<open>What stands behind an atom: \<open>*\<close>, \<open>+\<close>, \<open>{m,}\<close>, \<open>{m,n}\<close> or no repetition.\<close>

definition quantifier :: "string \<Rightarrow> ((nat \<times> nat option) option \<times> string) option" where
  "quantifier s =
     (if take 1 s = ''*'' then Some (Some (0, None), drop 1 s)
      else if take 1 s = ''+'' then Some (Some (1, None), drop 1 s)
      else if take 1 s = ''?'' then None
      else if take 1 s = ''{'' then
        (case number (drop 1 s) of
           None \<Rightarrow> None
         | Some (m, s) \<Rightarrow>
             if take 2 s = '',}'' then Some (Some (m, None), drop 2 s)
             else if take 1 s = '','' then
               (case number (drop 1 s) of
                  None \<Rightarrow> None
                | Some (n, s) \<Rightarrow> if take 1 s = ''}'' then Some (Some (m, Some n), drop 1 s) else None)
             else None)
      else Some (None, s))"

definition repeated :: "(nat \<times> nat option) option \<Rightarrow> regex \<Rightarrow> regex" where
  "repeated q a = (case q of None \<Rightarrow> a | Some (m, mo) \<Rightarrow> Repeat m mo a)"

text \<open>
  Alternatives, sequences and atoms; \<open>g\<close> is the number of groups opened so far. A repetition that is
  followed by another repetition sign (\<open>*?\<close>, \<open>*+\<close>, \<open>**\<close>) is none of these expressions.
\<close>

fun parse_alt :: "nat \<Rightarrow> nat \<Rightarrow> string \<Rightarrow> (regex \<times> nat \<times> string) option"
  and parse_seq :: "nat \<Rightarrow> nat \<Rightarrow> string \<Rightarrow> (regex \<times> nat \<times> string) option"
  and parse_atom :: "nat \<Rightarrow> nat \<Rightarrow> string \<Rightarrow> (regex \<times> nat \<times> string) option" where
  "parse_alt 0 g s = None"
| "parse_alt (Suc k) g s =
     (case parse_seq k g s of
        None \<Rightarrow> None
      | Some (a, g, s) \<Rightarrow>
          if take 1 s = ''|'' then
            (case parse_alt k g (drop 1 s) of None \<Rightarrow> None | Some (b, g, s) \<Rightarrow> Some (Alt a b, g, s))
          else Some (a, g, s))"
| "parse_seq 0 g s = None"
| "parse_seq (Suc k) g s =
     (if s = [] \<or> take 1 s = ''|'' \<or> take 1 s = '')'' then Some (Empty, g, s)
      else case parse_atom k g s of
        None \<Rightarrow> None
      | Some (a, g, s) \<Rightarrow>
          (case quantifier s of
             None \<Rightarrow> None
           | Some (q, s) \<Rightarrow>
               (case parse_seq k g s of
                  None \<Rightarrow> None
                | Some (b, g, s) \<Rightarrow> Some (Seq (repeated q a) b, g, s))))"
| "parse_atom 0 g s = None"
| "parse_atom (Suc k) g s =
     (case s of
        [] \<Rightarrow> None
      | c # s \<Rightarrow>
          if c = CHR ''('' then
            (if take 1 s = ''?'' then None
             else case parse_alt k (g + 1) s of
               None \<Rightarrow> None
             | Some (a, g', s) \<Rightarrow> if take 1 s = '')'' then Some (Group (g + 1) a, g', drop 1 s) else None)
          else if c = CHR ''['' then
            (if take 1 s = ''^'' then None
             else case set_items k s of None \<Rightarrow> None | Some (rs, s) \<Rightarrow> Some (Chars rs, g, s))
          else if c = CHR ''.'' then Some (Chars [(CHR 0x00, CHR 0xFF)], g, s)
          else if c = CHR ''^'' then Some (LineStart, g, s)
          else if c = CHR ''$'' then Some (LineEnd, g, s)
          else if c = backslash then
            (case s of [] \<Rightarrow> None | d # s \<Rightarrow> if word_char d then None else Some (Chars [(d, d)], g, s))
          else if special c then None
          else Some (Chars [(c, c)], g, s))"

text \<open>Every level takes a step for each character, so twice the length of the pattern is enough.\<close>

definition parse_regex :: "string \<Rightarrow> (regex \<times> nat) option" where
  "parse_regex pat =
     (case parse_alt (2 * length pat + 3) 0 pat of
        Some (r, g, []) \<Rightarrow> Some (r, g)
      | _ \<Rightarrow> None)"

section \<open>The first match\<close>

text \<open>The character before the position behind \<open>u\<close>; the first of several results.\<close>

definition after :: "char option \<Rightarrow> string \<Rightarrow> char option" where
  "after p u = (if u = [] then p else Some (last u))"

definition first :: "mstate list \<Rightarrow> mstate \<Rightarrow> bool" where
  "first ms st \<longleftrightarrow> (\<exists>ys. ms = st # ys)"

lemma after_simps [simp]:
  "after p [] = p" "after p (c # u) = after (Some c) u" "after (after p u) v = after p (u @ v)"
  by (auto simp: after_def)

lemma first_concat: "first ms st \<Longrightarrow> first (f st) st' \<Longrightarrow> first (concat (map f ms)) st'"
  by (auto simp: first_def)

lemma first_exactly:
  assumes "list_all (in_ranges rs) u"
  shows "first (exactly (one_char rs) (length u) (p, u @ s, cs)) (after p u, s, cs)"
  using assms by (induction u arbitrary: p) (auto simp: first_def)

lemma first_at_most:
  assumes "list_all (in_ranges rs) u" and "length u \<le> k"
    and "length u = k \<or> s = [] \<or> \<not> in_ranges rs (hd s)"
  shows "first (at_most (one_char rs) k (p, u @ s, cs)) (after p u, s, cs)"
  using assms
proof (induction u arbitrary: p k)
  case Nil
  then show ?case by (cases k; cases s) (auto simp: first_def)
next
  case (Cons c u)
  then obtain k' where k: "k = Suc k'" "length u \<le> k'" by (cases k) auto
  have "first (at_most (one_char rs) k' (Some c, u @ s, cs)) (after (Some c) u, s, cs)"
    using Cons.prems k by (intro Cons.IH) auto
  then show ?case
    using Cons.prems(1) by (auto simp: first_def k(1))
qed

lemma first_repeat:
  assumes "list_all (in_ranges rs) u" and "m \<le> length u"
    and "s = [] \<or> \<not> in_ranges rs (hd s) \<or> mo = Some (length u)"
    and "\<And>n. mo = Some n \<Longrightarrow> length u \<le> n"
  shows "first (matches (Repeat m mo (Chars rs)) (p, u @ s, cs)) (after p u, s, cs)"
proof -
  let ?u = "take m u" and ?v = "drop m u"
  have parts: "list_all (in_ranges rs) ?u" "list_all (in_ranges rs) ?v" "u = ?u @ ?v" "length ?u = m"
    using assms(1,2) by (auto simp: list_all_iff dest: in_set_takeD in_set_dropD)
  have e: "first (exactly (one_char rs) m (p, u @ s, cs)) (after p ?u, ?v @ s, cs)"
    using first_exactly [OF parts(1), of p "?v @ s" cs] parts(3,4) by (metis append.assoc)
  have a: "first (at_most (one_char rs) (case mo of Some n \<Rightarrow> n - m | None \<Rightarrow> length (?v @ s)) (after p ?u, ?v @ s, cs))
      (after (after p ?u) ?v, s, cs)"
    using assms(2-4) parts(2) by (intro first_at_most) (auto split: option.splits)
  have body: "matches (Chars rs) = one_char rs"
    by (rule ext) simp
  have "after (after p ?u) ?v = after p u"
    by simp
  then show ?thesis
    unfolding matches.simps body using a by (intro first_concat [OF e]) (cases mo; simp)
qed

lemma first_seq: "first (matches a st) st' \<Longrightarrow> first (matches b st') st'' \<Longrightarrow> first (matches (Seq a b) st) st''"
  by (simp add: first_concat)

lemma first_chars: "in_ranges rs c \<Longrightarrow> first (matches (Chars rs) (p, c # s, cs)) (Some c, s, cs)"
  by (simp add: first_def)

lemma first_group:
  assumes "first (matches a (p, u @ s, cs)) (p', s, cs')"
  shows "first (matches (Group n a) (p, u @ s, cs)) (p', s, (n, u) # cs')"
  using assms by (auto simp: first_def)

lemma first_empty: "first (matches Empty st) st"
  by (simp add: first_def)

lemma first_start: "first (matches LineStart (None, s, cs)) (None, s, cs)"
  by (simp add: first_def line_start_def)

lemma perl_search_first:
  assumes "first (matches r (None, s, [])) (p, [], cs)"
  shows "perl_search r n s = Some (s # map (\<lambda>i. case map_of cs i of None \<Rightarrow> [] | Some t \<Rightarrow> t) [1..<Suc n])"
  using assms by (cases s) (auto simp: first_def perl_search_def)

section \<open>Texts that are matched\<close>

text \<open>Behind \<open>p\<close> and in front of \<open>s\<close>, one of the ways to match \<open>r\<close> takes exactly the text \<open>u\<close>.\<close>

definition eats :: "regex \<Rightarrow> char option \<Rightarrow> string \<Rightarrow> string \<Rightarrow> bool" where
  "eats r p u s \<longleftrightarrow> (\<forall>cs. \<exists>cs'. (after p u, s, cs') \<in> set (matches r (p, u @ s, cs)))"

lemma eatsD: "eats r p u s \<Longrightarrow> \<exists>cs'. (after p u, s, cs') \<in> set (matches r (p, u @ s, cs))"
  by (simp add: eats_def)

lemma eats_basic:
  "eats Empty p [] s"
  "eats LineStart None [] s"
  "eats LineEnd p [] []"
  "in_ranges rs c \<Longrightarrow> eats (Chars rs) p [c] s"
  by (auto simp: eats_def line_start_def line_end_def after_def)

lemma eats_seq:
  assumes "eats a p u (v @ s)" and "eats b (after p u) v s"
  shows "eats (Seq a b) p (u @ v) s"
  unfolding eats_def
proof
  fix cs
  obtain cs1 where 1: "(after p u, v @ s, cs1) \<in> set (matches a (p, u @ v @ s, cs))"
    using eatsD [OF assms(1)] by blast
  obtain cs2 where "(after (after p u) v, s, cs2) \<in> set (matches b (after p u, v @ s, cs1))"
    using eatsD [OF assms(2)] by blast
  with 1 show "\<exists>cs'. (after p (u @ v), s, cs') \<in> set (matches (Seq a b) (p, (u @ v) @ s, cs))"
    by (intro exI [of _ cs2]) (auto intro!: bexI [of _ "(after p u, v @ s, cs1)"])
qed

lemma eats_alt: "eats a p u s \<or> eats b p u s \<Longrightarrow> eats (Alt a b) p u s"
  by (fastforce simp: eats_def)

lemma eats_group: "eats a p u s \<Longrightarrow> eats (Group n a) p u s"
  unfolding eats_def by (fastforce simp: image_iff split: prod.splits)

text \<open>A repetition takes a sequence of texts its body takes; none of them empty, when it has no upper bound.\<close>

lemma exactly_pieces:
  assumes "\<forall>u \<in> set us. \<forall>p s. eats a p u s"
  shows "\<exists>cs'. (after p (concat us), s, cs') \<in> set (exactly (matches a) (length us) (p, concat us @ s, cs))"
  using assms
proof (induction us arbitrary: p cs)
  case (Cons u us)
  obtain cs1 where 1: "(after p u, concat us @ s, cs1) \<in> set (matches a (p, u @ concat us @ s, cs))"
    using Cons.prems eatsD by (metis list.set_intros(1))
  obtain cs2 where "(after (after p u) (concat us), s, cs2) \<in>
      set (exactly (matches a) (length us) (after p u, concat us @ s, cs1))"
    using Cons.IH [of "after p u" cs1] Cons.prems by auto
  with 1 show ?case
    by (intro exI [of _ cs2]) (auto intro!: bexI [of _ "(after p u, concat us @ s, cs1)"])
qed simp

lemma at_most_pieces:
  assumes "\<forall>u \<in> set us. \<forall>p s. eats a p u s" and "length us \<le> k"
  shows "\<exists>cs'. (after p (concat us), s, cs') \<in> set (at_most (matches a) k (p, concat us @ s, cs))"
  using assms
proof (induction us arbitrary: p cs k)
  case Nil
  then show ?case by (cases k) auto
next
  case (Cons u us)
  then obtain k' where k: "k = Suc k'" "length us \<le> k'" by (cases k) auto
  obtain cs1 where 1: "(after p u, concat us @ s, cs1) \<in> set (matches a (p, u @ concat us @ s, cs))"
    using Cons.prems eatsD by (metis list.set_intros(1))
  obtain cs2 where "(after (after p u) (concat us), s, cs2) \<in>
      set (at_most (matches a) k' (after p u, concat us @ s, cs1))"
    using Cons.IH [of k' "after p u" cs1] Cons.prems k by auto
  with 1 show ?case
    by (intro exI [of _ cs2]) (auto simp: k(1) intro!: bexI [of _ "(after p u, concat us @ s, cs1)"])
qed

lemma pieces_le: "\<forall>u \<in> set us. u \<noteq> [] \<Longrightarrow> length us \<le> length (concat us)"
proof (induction us)
  case (Cons u us)
  then show ?case by (cases u) auto
qed simp

lemma eats_repeat:
  assumes "\<forall>u \<in> set us. u \<noteq> [] \<and> (\<forall>p s. eats a p u s)" and "m \<le> length us"
  shows "eats (Repeat m None a) p (concat us) s"
  unfolding eats_def
proof
  fix cs
  let ?u = "concat (take m us)" and ?v = "concat (drop m us)"
  have parts: "concat us = ?u @ ?v"
    by (metis append_take_drop_id concat_append)
  have body: "\<forall>u \<in> set (take m us). \<forall>p s. eats a p u s" "\<forall>u \<in> set (drop m us). \<forall>p s. eats a p u s"
      "\<forall>u \<in> set (drop m us). u \<noteq> []"
    using assms(1) by (meson in_set_takeD in_set_dropD)+
  obtain cs1 where 1: "(after p ?u, ?v @ s, cs1) \<in> set (exactly (matches a) m (p, ?u @ ?v @ s, cs))"
    using exactly_pieces [OF body(1), of p "?v @ s" cs] assms(2) by (auto simp: min_absorb2)
  obtain cs2 where "(after (after p ?u) ?v, s, cs2) \<in>
      set (at_most (matches a) (length (?v @ s)) (after p ?u, ?v @ s, cs1))"
    using at_most_pieces [OF body(2), of "length (?v @ s)" "after p ?u" s cs1] pieces_le [OF body(3)] by auto
  with 1 show "\<exists>cs'. (after p (concat us), s, cs') \<in> set (matches (Repeat m None a) (p, concat us @ s, cs))"
    unfolding parts by (intro exI [of _ cs2]) (auto intro!: bexI [of _ "(after p ?u, ?v @ s, cs1)"])
qed

lemma eats_chars:
  assumes "list_all (in_ranges rs) u" and "m \<le> length u"
  shows "eats (Repeat m None (Chars rs)) p u s"
proof -
  have "eats (Repeat m None (Chars rs)) p (concat (map (\<lambda>c. [c]) u)) s"
    using assms by (intro eats_repeat) (auto simp: list_all_iff eats_basic)
  then show ?thesis by simp
qed

lemma perl_match_eats: "eats r None u [] \<Longrightarrow> perl_match r u"
  unfolding perl_match_def list_ex_iff using eatsD [of r None u "[]" "[]"] by fastforce

section \<open>Texts that are not matched\<close>

text \<open>A character every match of an expression contains.\<close>

primrec must :: "char \<Rightarrow> regex \<Rightarrow> bool" where
  "must c Empty = False"
| "must c (Chars rs) = (rs = [(c, c)])"
| "must c LineStart = False"
| "must c LineEnd = False"
| "must c (Seq a b) = (must c a \<or> must c b)"
| "must c (Alt a b) = (must c a \<and> must c b)"
| "must c (Repeat m mo a) = (0 < m \<and> must c a)"
| "must c (Group n a) = must c a"

definition takes :: "(mstate \<Rightarrow> mstate list) \<Rightarrow> (string \<Rightarrow> bool) \<Rightarrow> bool" where
  "takes f P \<longleftrightarrow> (\<forall>p s cs p' s' cs'. (p', s', cs') \<in> set (f (p, s, cs)) \<longrightarrow> (\<exists>u. s = u @ s' \<and> P u))"

lemma takesD: "takes f P \<Longrightarrow> (p', s', cs') \<in> set (f (p, s, cs)) \<Longrightarrow> \<exists>u. s = u @ s' \<and> P u"
  unfolding takes_def by blast

lemma takesI: "(\<And>p s cs p' s' cs'. (p', s', cs') \<in> set (f (p, s, cs)) \<Longrightarrow> \<exists>u. s = u @ s' \<and> P u) \<Longrightarrow> takes f P"
  unfolding takes_def by blast

lemma takes_concat:
  assumes "takes f P" and "\<And>st. takes (g st) Q"
    and "\<And>u v. P u \<Longrightarrow> Q v \<Longrightarrow> R (u @ v)"
  shows "takes (\<lambda>st. concat (map (\<lambda>st'. g st' st') (f st))) R"
proof (rule takesI)
  fix p s cs p' s' cs'
  assume "(p', s', cs') \<in> set (concat (map (\<lambda>st'. g st' st') (f (p, s, cs))))"
  then obtain p1 s1 cs1 where "(p1, s1, cs1) \<in> set (f (p, s, cs))"
      "(p', s', cs') \<in> set (g (p1, s1, cs1) (p1, s1, cs1))"
    by auto
  then show "\<exists>u. s = u @ s' \<and> R u"
    using takesD [OF assms(1)] takesD [OF assms(2)] assms(3) by (metis append.assoc)
qed

lemma takes_exactly: "takes f P \<Longrightarrow> takes (exactly f n) (\<lambda>u. 0 < n \<longrightarrow> (\<exists>v w. u = v @ w \<and> P v))"
proof (induction n)
  case (Suc n)
  have "takes (\<lambda>st. concat (map (\<lambda>st'. exactly f n st') (f st))) (\<lambda>u. 0 < Suc n \<longrightarrow> (\<exists>v w. u = v @ w \<and> P v))"
    by (rule takes_concat [OF Suc.prems Suc.IH [OF Suc.prems]]) auto
  then show ?case
    by (simp add: takes_def)
qed (simp add: takes_def)

lemma takes_at_most: "takes f P \<Longrightarrow> takes (at_most f n) (\<lambda>u. True)"
proof (induction n)
  case (Suc n)
  have "takes (\<lambda>st. concat (map (\<lambda>st'. at_most f n st') (f st))) (\<lambda>u. True)"
    using takes_concat [OF Suc.prems, of "\<lambda>_. at_most f n" "\<lambda>_. True" "\<lambda>_. True"] Suc by simp
  then show ?case
    unfolding takes_def by auto
qed (simp add: takes_def)

lemma takes_matches: "takes (matches r) (\<lambda>u. must c r \<longrightarrow> c \<in> set u)"
proof (induction r)
  case (Chars rs)
  show ?case
  proof (rule takesI)
    fix p s cs p' s' cs'
    assume "(p', s', cs') \<in> set (matches (Chars rs) (p, s, cs))"
    then show "\<exists>u. s = u @ s' \<and> (must c (Chars rs) \<longrightarrow> c \<in> set u)"
      by (cases s) (auto simp: in_ranges_def split: if_splits)
  qed
next
  case (Seq a b)
  have "takes (\<lambda>st. concat (map (\<lambda>st'. matches b st') (matches a st))) (\<lambda>u. must c (Seq a b) \<longrightarrow> c \<in> set u)"
    by (rule takes_concat [OF Seq.IH]) auto
  then show ?case by (simp add: takes_def)
next
  case (Alt a b)
  then show ?case unfolding takes_def by (auto; blast)
next
  case (Repeat m mo a)
  have "takes (\<lambda>st. concat (map (\<lambda>st'. at_most (matches a) (case mo of Some n \<Rightarrow> n - m | None \<Rightarrow> length (fst (snd st'))) st')
      (exactly (matches a) m st))) (\<lambda>u. must c (Repeat m mo a) \<longrightarrow> c \<in> set u)"
    by (rule takes_concat [OF takes_exactly [OF Repeat.IH] takes_at_most [OF Repeat.IH]]) auto
  then show ?case by (simp add: takes_def)
next
  case (Group n a)
  show ?case
  proof (rule takesI)
    fix p s cs p' s' cs'
    assume "(p', s', cs') \<in> set (matches (Group n a) (p, s, cs))"
    then obtain cs1 where "(p', s', cs1) \<in> set (matches a (p, s, cs))" by auto
    then show "\<exists>u. s = u @ s' \<and> (must c (Group n a) \<longrightarrow> c \<in> set u)"
      using takesD [OF Group.IH] by simp
  qed
qed (auto simp: takes_def)

lemma perl_match_must: "must c r \<Longrightarrow> c \<notin> set s \<Longrightarrow> \<not> perl_match r s"
  using takesD [OF takes_matches [of r c]] by (fastforce simp: perl_match_def list_ex_iff)

end
