(* ===== verification/Xhr_Uri.thy ===== *)
theory Xhr_Uri
  imports Session_Run Perl_Regex
begin

text \<open>
  How a request takes its URL apart before it connects (\<open>proccessUri\<close> of \<open>xmlhttprequest_impl.cpp\<close>), with
  regular expressions and not with the URL parser the session uses later. Boost.Regex is the argument
  \<open>regex_engine\<close>; what is assumed of it is \<open>perl_regex\<close>, the documented matching of the expressions of
  \<open>Perl_Regex\<close>, whatever the pattern. The two patterns of the source are read and matched here.
\<close>

section \<open>The patterns\<close>

definition regexGroupProtocol :: string where
  "regexGroupProtocol = ''(^[https]{4,5})''"

definition regexAddressOrHostPort :: string where
  "regexAddressOrHostPort = ''([0-9a-z'' @ [CHR 0x5C] @ ''.:-]{3,})''"

definition addressTail :: string where
  "addressTail = ''('' @ [CHR 0x5C] @ ''/{0,1}.{0,})''"

definition checkHostPort :: string where
  "checkHostPort =
     ''^(([a-zA-Z0-9]|[a-zA-Z0-9][a-zA-Z0-9'' @ [CHR 0x5C, CHR 0x5C] @ ''-]*[a-zA-Z0-9])'' @ [CHR 0x5C] @
     ''.)*([A-Za-z0-9]|[A-Za-z0-9][A-Za-z0-9'' @ [CHR 0x5C] @ ''-]*[A-Za-z0-9]):[0-9]+$''"

definition baseRegexp :: string where
  "baseRegexp =
     regexGroupProtocol @ '':'' @ [CHR 0x5C, CHR ''/'', CHR 0x5C, CHR ''/''] @ regexAddressOrHostPort"

definition protoIpPortUrlRegex :: string where
  "protoIpPortUrlRegex = baseRegexp @ addressTail"

section \<open>The regular expression library\<close>

text \<open>\<open>regex_search\<close> returns the groups of the match, the whole match first.\<close>

record regex_engine =
  regex_search :: "string \<Rightarrow> string \<Rightarrow> string list option"
  regex_match :: "string \<Rightarrow> string \<Rightarrow> bool"

definition group :: "string list \<Rightarrow> nat \<Rightarrow> string" where
  "group what i = (if i < length what then what ! i else [])"

text \<open>
  The documented behaviour: a pattern of the modelled syntax whose unbounded repetitions match no empty text
  is searched and matched as \<open>Perl_Regex\<close> describes it. (That the library gives up on a match that takes it too
  many steps is left out.)
\<close>

definition perl_regex :: "regex_engine \<Rightarrow> bool" where
  "perl_regex e \<longleftrightarrow>
     (\<forall>pat r n s. parse_regex pat = Some (r, n) \<and> loops_consume r \<longrightarrow>
        regex_search e pat s = perl_search r n s \<and> regex_match e pat s = perl_match r s)"

text \<open>The character class of the address, and the labels of a host name.\<close>

definition addr_char :: "char \<Rightarrow> bool" where
  "addr_char c \<longleftrightarrow> is_dec c \<or> (CHR ''a'' \<le> c \<and> c \<le> CHR ''z'') \<or> c \<in> {CHR ''.'', CHR '':'', CHR ''-''}"

definition alnum_char :: "char \<Rightarrow> bool" where
  "alnum_char c \<longleftrightarrow> is_dec c \<or> (CHR ''a'' \<le> c \<and> c \<le> CHR ''z'') \<or> (CHR ''A'' \<le> c \<and> c \<le> CHR ''Z'')"

fun labels :: "string \<Rightarrow> string list" where
  "labels [] = [[]]"
| "labels (c # s) =
     (if c = CHR ''.'' then [] # labels s
      else case labels s of [] \<Rightarrow> [[c]] | l # ls \<Rightarrow> (c # l) # ls)"

definition label_ok :: "string \<Rightarrow> bool" where
  "label_ok l \<longleftrightarrow>
     l \<noteq> [] \<and> alnum_char (hd l) \<and> alnum_char (last l) \<and> list_all (\<lambda>c. alnum_char c \<or> c = CHR ''-'') l"

definition host_labels_ok :: "string \<Rightarrow> bool" where
  "host_labels_ok h \<longleftrightarrow> list_all label_ok (labels h)"

section \<open>Taking a URL apart\<close>

record elements =
  e_addr :: string
  e_port :: string
  e_protocol :: string
  e_urn :: string

text \<open>\<open>find_last_of\<close> with one character.\<close>

definition last_index :: "char \<Rightarrow> string \<Rightarrow> nat option" where
  "last_index c s = (if c \<in> set s then Some (length s - 1 - length (takeWhile (\<lambda>x. x \<noteq> c) (rev s))) else None)"

definition proccessUri :: "regex_engine \<Rightarrow> string \<Rightarrow> elements option" where
  "proccessUri e uri =
     (if uri = [] then None
      else case regex_search e protoIpPortUrlRegex uri of
        None \<Rightarrow> None
      | Some what \<Rightarrow>
          let urlProtocol = group what 1; urlAddr = group what 2; urlTail = group what 3 in
          if urlProtocol = [] \<or> urlAddr = [] then None
          else
            let (urlAddr, urlPort) =
              (if regex_match e checkHostPort urlAddr then
                 (case last_index CHR '':'' urlAddr of
                    Some pos \<Rightarrow> (take pos urlAddr, drop (pos + 1) urlAddr)
                  | None \<Rightarrow> (urlAddr, []))
               else (urlAddr, []));
              urlPort = (if urlPort = [] then (if urlProtocol = ''https'' then ''443'' else ''80'') else urlPort)
            in Some \<lparr>e_addr = urlAddr, e_port = urlPort, e_protocol = urlProtocol, e_urn = urlTail\<rparr>)"

section \<open>The URLs it understands\<close>

text \<open>
  A host over the address class whose labels are well-formed; the port a request uses; the text behind
  host and port.
\<close>

definition plain_host :: "string \<Rightarrow> bool" where
  "plain_host h \<longleftrightarrow> list_all (\<lambda>c. addr_char c \<and> c \<noteq> CHR '':'') h \<and> host_labels_ok h \<and> 3 \<le> length h"

definition used_port :: "url_parts \<Rightarrow> string" where
  "used_port q =
     (case port_text q of Some x \<Rightarrow> x | None \<Rightarrow> if scheme q = ''https'' then ''443'' else ''80'')"

definition url_tail :: "url_parts \<Rightarrow> string" where
  "url_tail q = path q @ mark_text CHR ''?'' (query q) @ mark_text CHR ''#'' (fragment q)"

definition full_url :: "elements \<Rightarrow> string" where
  "full_url el = e_protocol el @ ''://'' @ e_addr el @ '':'' @ e_port el @ e_urn el"

lemma class_chars:
  "is_dec c \<Longrightarrow> addr_char c" "\<not> addr_char CHR ''/''" "\<not> addr_char CHR ''?''" "\<not> addr_char CHR ''#''"
  "\<not> addr_char CHR ''@''" "addr_char CHR '':''" "\<not> is_dec CHR '':''"
  by (simp_all add: addr_char_def is_dec_def)

lemma tail_stops:
  assumes "path_ok (path q)"
  shows "url_tail q = [] \<or> \<not> addr_char (hd (url_tail q))"
  using assms class_chars
  by (cases "path q"; cases "query q"; cases "fragment q") (auto simp: url_tail_def path_ok_def)

lemma takeWhile_stop:
  assumes "list_all P a" and "t = [] \<or> \<not> P (hd t)"
  shows "takeWhile P (a @ t) = a"
  using assms by (cases t) (auto simp: list_all_iff takeWhile_append)

section \<open>What the patterns match\<close>

abbreviation char_regex :: "char \<Rightarrow> regex" where
  "char_regex c \<equiv> Chars [(c, c)]"

abbreviation addr_ranges :: "(char \<times> char) list" where
  "addr_ranges \<equiv> [(CHR ''0'', CHR ''9''), (CHR ''a'', CHR ''z''), (CHR ''.'', CHR ''.''), (CHR '':'', CHR '':''),
     (CHR ''-'', CHR ''-'')]"

abbreviation any_ranges :: "(char \<times> char) list" where
  "any_ranges \<equiv> [(CHR 0x00, CHR 0xFF)]"

definition url_regex :: regex where
  "url_regex =
     Seq (Group 1 (Seq LineStart (Seq (Repeat 4 (Some 5) (Chars (map (\<lambda>c. (c, c)) ''https''))) Empty)))
       (Seq (char_regex CHR '':'') (Seq (char_regex CHR ''/'') (Seq (char_regex CHR ''/'')
         (Seq (Group 2 (Seq (Repeat 3 None (Chars addr_ranges)) Empty))
           (Seq (Group 3 (Seq (Repeat 0 (Some 1) (char_regex CHR ''/''))
               (Seq (Repeat 0 None (Chars any_ranges)) Empty)))
             Empty)))))"

definition label_regex :: "(char \<times> char) list \<Rightarrow> (char \<times> char) list \<Rightarrow> regex" where
  "label_regex ends inner =
     Alt (Seq (Chars ends) Empty)
       (Seq (Chars ends) (Seq (Repeat 0 None (Chars inner)) (Seq (Chars ends) Empty)))"

abbreviation lower_first :: "(char \<times> char) list" where
  "lower_first \<equiv> [(CHR ''a'', CHR ''z''), (CHR ''A'', CHR ''Z''), (CHR ''0'', CHR ''9'')]"

abbreviation upper_first :: "(char \<times> char) list" where
  "upper_first \<equiv> [(CHR ''A'', CHR ''Z''), (CHR ''a'', CHR ''z''), (CHR ''0'', CHR ''9'')]"

definition host_port_regex :: regex where
  "host_port_regex =
     Seq LineStart
       (Seq (Repeat 0 None (Group 1
           (Seq (Group 2 (label_regex lower_first (lower_first @ map (\<lambda>c. (c, c)) [CHR 0x5C, CHR ''-''])))
             (Seq (char_regex CHR ''.'') Empty))))
         (Seq (Group 3 (label_regex upper_first (upper_first @ [(CHR ''-'', CHR ''-'')])))
           (Seq (char_regex CHR '':'') (Seq (Repeat 1 None (Chars [(CHR ''0'', CHR ''9'')])) (Seq LineEnd Empty)))))"

lemma patterns_parse:
  "parse_regex protoIpPortUrlRegex = Some (url_regex, 3)"
  "parse_regex checkHostPort = Some (host_port_regex, 3)"
  by code_simp+

lemma engine_results:
  assumes "perl_regex e"
  shows "regex_search e protoIpPortUrlRegex s = perl_search url_regex 3 s"
    and "regex_match e checkHostPort s = perl_match host_port_regex s"
  using assms patterns_parse
  by (simp_all add: perl_regex_def url_regex_def host_port_regex_def label_regex_def)

text \<open>Every step of the search succeeds the first time: protocol, separators, address, text behind it.\<close>

lemma range_classes:
  "in_ranges addr_ranges = addr_char" "in_ranges any_ranges c"
  "in_ranges lower_first = alnum_char" "in_ranges upper_first = alnum_char"
  "in_ranges [(CHR ''0'', CHR ''9'')] = is_dec"
proof -
  show "in_ranges addr_ranges = addr_char"
    by (rule ext) (auto simp: in_ranges_def addr_char_def is_dec_def dest: order.antisym)
  show "in_ranges lower_first = alnum_char" "in_ranges upper_first = alnum_char"
      "in_ranges [(CHR ''0'', CHR ''9'')] = is_dec"
    by (rule ext, auto simp: in_ranges_def alnum_char_def is_dec_def)+
  show "in_ranges any_ranges c"
    using nat_of_char_less_256 [of c] by (simp add: in_ranges_def less_eq_char_def less_Suc_eq_le [symmetric])
qed

lemma first_tail:
  "first (matches (Seq (Repeat 0 (Some 1) (char_regex CHR ''/'')) (Seq (Repeat 0 None (Chars any_ranges)) Empty))
     (p, t @ [], cs)) (after p t, [], cs)"
proof -
  define u where "u = (if take 1 t = ''/'' then ''/'' else [])"
  have t: "t = u @ drop (length u) t"
    by (cases t) (auto simp: u_def)
  have slash: "first (matches (Repeat 0 (Some 1) (char_regex CHR ''/'')) (p, u @ drop (length u) t, cs))
      (after p u, drop (length u) t, cs)"
    by (rule first_repeat) (cases t; auto simp: u_def in_ranges_def)+
  have rest: "first (matches (Repeat 0 None (Chars any_ranges)) (after p u, drop (length u) t @ [], cs))
      (after (after p u) (drop (length u) t), [], cs)"
    by (rule first_repeat) (simp_all add: list_all_iff range_classes)
  show ?thesis
    using first_seq [OF slash first_seq [OF rest [unfolded append_Nil2] first_empty]] t by simp
qed

lemma url_search:
  assumes "perl_regex e" and "p \<in> {''http'', ''https''}" and "list_all addr_char a" and "3 \<le> length a"
    and "t = [] \<or> \<not> addr_char (hd t)"
  shows "regex_search e protoIpPortUrlRegex (p @ ''://'' @ a @ t) = Some [p @ ''://'' @ a @ t, p, a, t]"
proof -
  have proto: "first (matches (Repeat 4 (Some 5) (Chars (map (\<lambda>c. (c, c)) ''https''))) (None, p @ ''://'' @ a @ t, []))
      (after None p, ''://'' @ a @ t, [])"
    using assms(2) by (intro first_repeat) (auto simp: in_ranges_def)
  have one: "first (matches (Group 1 (Seq LineStart (Seq (Repeat 4 (Some 5) (Chars (map (\<lambda>c. (c, c)) ''https''))) Empty)))
      (None, p @ ''://'' @ a @ t, [])) (after None p, ''://'' @ a @ t, [(1, p)])"
    by (intro first_group first_seq [OF first_start] first_seq [OF proto] first_empty)
  have two: "first (matches (Group 2 (Seq (Repeat 3 None (Chars addr_ranges)) Empty))
      (Some CHR ''/'', a @ t, [(1, p)])) (after (Some CHR ''/'') a, t, [(2, a), (1, p)])"
    by (intro first_group first_seq [OF first_repeat] first_empty)
       (use assms(3-5) in \<open>auto simp: range_classes\<close>)
  have three: "first (matches (Group 3 (Seq (Repeat 0 (Some 1) (char_regex CHR ''/''))
      (Seq (Repeat 0 None (Chars any_ranges)) Empty))) (after (Some CHR ''/'') a, t @ [], [(2, a), (1, p)]))
      (after (after (Some CHR ''/'') a) t, [], [(3, t), (2, a), (1, p)])"
    by (rule first_group [OF first_tail])
  have "first (matches url_regex (None, p @ ''://'' @ a @ t, []))
      (after (after (Some CHR ''/'') a) t, [], [(3, t), (2, a), (1, p)])"
    unfolding url_regex_def
    by (rule first_seq [OF one], simp only: append_Cons append_Nil,
        rule first_seq [OF first_chars], simp add: in_ranges_def,
        rule first_seq [OF first_chars], simp add: in_ranges_def,
        rule first_seq [OF first_chars], simp add: in_ranges_def,
        rule first_seq [OF two], rule first_seq [OF three [simplified append_Nil2]], rule first_empty)
  from perl_search_first [OF this, of 3] show ?thesis
    by (simp add: engine_results [OF assms(1)] upt_rec numeral_eq_Suc)
qed

text \<open>A host with a port is matched label by label; without a colon nothing is.\<close>

lemma eats_label:
  assumes "label_ok l" and "\<And>c. alnum_char c \<Longrightarrow> in_ranges ends c"
    and "\<And>c. alnum_char c \<or> c = CHR ''-'' \<Longrightarrow> in_ranges inner c"
  shows "eats (label_regex ends inner) p l s"
proof -
  obtain c v where l: "l = c # v"
    using assms(1) by (cases l) (auto simp: label_ok_def)
  have c: "eats (Chars ends) q [c] s'" for q s'
    using assms(1,2) l by (intro eats_basic) (auto simp: label_ok_def)
  show ?thesis
  proof (cases v rule: rev_cases)
    case Nil
    then show ?thesis
      using eats_seq [of "Chars ends" p "[c]" "[]" s Empty] c l
      by (auto simp: label_regex_def eats_basic intro: eats_alt)
  next
    case (snoc w d)
    have "eats (Chars ends) q [d] s'" for q s'
      using assms(1,2) l snoc by (intro eats_basic) (auto simp: label_ok_def)
    then have last: "eats (Seq (Chars ends) Empty) q ([d] @ []) s" for q
      by (intro eats_seq) (simp_all add: eats_basic)
    have mid: "eats (Repeat 0 None (Chars inner)) q w s'" for q s'
      using assms(1,3) l snoc by (intro eats_chars) (auto simp: label_ok_def list_all_iff)
    have "eats (Seq (Chars ends) (Seq (Repeat 0 None (Chars inner)) (Seq (Chars ends) Empty))) p
        ([c] @ w @ [d] @ []) s"
      by (rule eats_seq [OF c eats_seq [OF mid last]])
    then show ?thesis
      using l snoc by (auto simp: label_regex_def intro: eats_alt)
  qed
qed

lemma labels_join: "labels h \<noteq> [] \<and> h = concat (map (\<lambda>l. l @ ''.'') (butlast (labels h))) @ last (labels h)"
  by (induction h rule: labels.induct) (auto split: list.splits)

lemma host_port_matches:
  assumes "host_labels_ok h" and "x \<noteq> []" and "list_all is_dec x"
  shows "perl_match host_port_regex (h @ '':'' @ x)"
proof -
  let ?inner = "concat (map (\<lambda>l. l @ ''.'') (butlast (labels h)))" and ?l = "last (labels h)"
  have ok: "\<forall>l \<in> set (labels h). label_ok l"
    using assms(1) by (simp add: host_labels_ok_def list_all_iff)
  have label: "eats (label_regex lower_first (lower_first @ map (\<lambda>c. (c, c)) [CHR 0x5C, CHR ''-''])) p l s"
      "eats (label_regex upper_first (upper_first @ [(CHR ''-'', CHR ''-'')])) p l s" if "label_ok l" for p l s
    using that range_classes(3,4) by (auto intro!: eats_label simp: in_ranges_def fun_eq_iff)
  have dotted: "eats (Seq (Group 2 (label_regex lower_first (lower_first @ map (\<lambda>c. (c, c)) [CHR 0x5C, CHR ''-''])))
      (Seq (char_regex CHR ''.'') Empty)) p (l @ ''.'' @ []) s" if "label_ok l" for p l s
    by (intro eats_seq eats_group label eats_basic that) (simp add: in_ranges_def)
  have "eats (Repeat 0 None (Group 1 (Seq (Group 2 (label_regex lower_first
      (lower_first @ map (\<lambda>c. (c, c)) [CHR 0x5C, CHR ''-'']))) (Seq (char_regex CHR ''.'') Empty)))) None ?inner s" for s
    using ok dotted by (intro eats_repeat) (auto intro!: eats_group dest: in_set_butlastD)
  moreover have "eats (Group 3 (label_regex upper_first (upper_first @ [(CHR ''-'', CHR ''-'')]))) p ?l s" for p s
    using ok labels_join [of h] by (intro eats_group label) simp
  moreover have "eats (Repeat 1 None (Chars [(CHR ''0'', CHR ''9'')])) p x s" for p s
    using assms(2,3) by (intro eats_chars) (auto simp: range_classes Suc_le_eq)
  ultimately have "eats host_port_regex None ([] @ ?inner @ ?l @ '':'' @ x @ [] @ []) []"
    unfolding host_port_regex_def
    by (intro eats_seq eats_basic) (simp_all add: in_ranges_def eats_basic)
  then show ?thesis
    using labels_join [of h] by (intro perl_match_eats) (metis append.assoc append_Nil append_Nil2)
qed

lemma no_colon:
  "list_all (\<lambda>c. addr_char c \<and> c \<noteq> CHR '':'') h \<Longrightarrow> \<not> perl_match host_port_regex h"
  by (rule perl_match_must [of "CHR '':''"]) (auto simp: host_port_regex_def list_all_iff)

lemma last_colon:
  assumes "list_all is_dec x"
  shows "last_index CHR '':'' (h @ '':'' @ x) = Some (length h)"
proof -
  have "list_all (\<lambda>c. c \<noteq> CHR '':'') (rev x)"
    using assms class_chars(7) by (auto simp: list_all_iff)
  then have "takeWhile (\<lambda>c. c \<noteq> CHR '':'') (rev x @ (CHR '':'' # rev h)) = rev x"
    by (intro takeWhile_stop) simp_all
  then show "last_index CHR '':'' (h @ '':'' @ x) = Some (length h)"
    by (simp add: last_index_def)
qed

lemma proccessUri_parts:
  assumes "perl_regex e" and "url_parts_ok q" and "scheme q \<in> {''http'', ''https''}"
    and "userinfo q = None" and "plain_host (host q)"
  shows "\<exists>el. proccessUri e (render_url q) = Some el \<and>
    e_addr el = host q \<and> e_port el = used_port q \<and> e_protocol el = scheme q \<and> e_urn el = url_tail q \<and>
    full_url el = render_url (q\<lparr>port_text := Some (used_port q)\<rparr>)"
proof -
  let ?a = "host q @ mark_text CHR '':'' (port_text q)"
  have hchars: "list_all addr_char (host q)" "3 \<le> length (host q)"
      "list_all (\<lambda>c. addr_char c \<and> c \<noteq> CHR '':'') (host q)"
    using assms(5) by (auto simp: plain_host_def list_all_iff)
  have digits: "\<And>x. port_text q = Some x \<Longrightarrow> x \<noteq> [] \<and> list_all is_dec x"
    using url_parts_okD(6) [OF assms(2)] by blast
  have chars: "list_all addr_char ?a"
    using hchars(1) digits class_chars(1,6) by (cases "port_text q") (auto simp: list_all_iff)
  have url: "render_url q = scheme q @ ''://'' @ ?a @ url_tail q"
    using assms(4) by (simp add: render_url_def url_tail_def)
  have search: "regex_search e protoIpPortUrlRegex (render_url q) =
      Some [render_url q, scheme q, ?a, url_tail q]"
    unfolding url using url_search [OF assms(1,3) chars _ tail_stops] hchars(2)
      url_parts_okD(8) [OF assms(2)] by simp
  have match: "regex_match e checkHostPort ?a = (port_text q \<noteq> None)"
    using no_colon [OF hchars(3)] host_port_matches [of "host q"] digits assms(5)
    by (cases "port_text q") (auto simp: engine_results [OF assms(1)] plain_host_def)
  have "proccessUri e (render_url q) = Some \<lparr>e_addr = host q, e_port = used_port q,
      e_protocol = scheme q, e_urn = url_tail q\<rparr>"
    using search match assms(3) digits hchars(2) last_colon url
    by (cases "port_text q") (auto simp: proccessUri_def group_def Let_def used_port_def)
  then show ?thesis
    using assms(4) by (simp add: full_url_def render_url_def url_tail_def)
qed

text \<open>
  C18: For a URL with scheme \<open>http\<close> or \<open>https\<close>, no user information and a lower-case host name of
  well-formed labels, the regular expressions of the source, read and matched as Perl's, find the components the URL is written from: the host,
  its port (443 or 80 when none is given) and the text behind them; and the URL the request then sends
  is the same URL with its port made explicit.
\<close>

theorem proccessUri_finds_the_parts:
  assumes "perl_regex e" and "url_parts_ok q" and "scheme q \<in> {''http'', ''https''}"
    and "userinfo q = None" and "plain_host (host q)"
  shows "\<exists>el. proccessUri e (render_url q) = Some el \<and>
    e_addr el = host q \<and> e_port el = used_port q \<and> e_protocol el = scheme q \<and> e_urn el = url_tail q \<and>
    full_url el = render_url (q\<lparr>port_text := Some (used_port q)\<rparr>)"
  using assms by (rule proccessUri_parts)

text \<open>
  User information is taken for the host. For a URL with user information that consists of
  characters of the address class and no colon, a request connects to a host named like the user, and
  the real host ends up in the text behind the address.
\<close>

theorem userinfo_taken_for_host:
  assumes "perl_regex e" and "scheme q \<in> {''http'', ''https''}" and "userinfo q = Some u"
    and "list_all (\<lambda>c. addr_char c \<and> c \<noteq> CHR '':'') u" and "3 \<le> length u"
  shows "\<exists>el. proccessUri e (render_url q) = Some el \<and> e_addr el = u \<and>
    e_urn el = CHR ''@'' # host q @ mark_text CHR '':'' (port_text q) @ url_tail q"
proof -
  let ?t = "CHR ''@'' # host q @ mark_text CHR '':'' (port_text q) @ url_tail q"
  have url: "render_url q = scheme q @ ''://'' @ u @ ?t"
    using assms(3) by (simp add: render_url_def url_tail_def)
  have u: "list_all addr_char u"
    using assms(4) by (auto simp: list_all_iff)
  have "regex_search e protoIpPortUrlRegex (render_url q) = Some [render_url q, scheme q, u, ?t]"
    unfolding url by (rule url_search [OF assms(1,2) u assms(5)]) (simp add: class_chars)
  moreover have "\<not> regex_match e checkHostPort u"
    using no_colon [OF assms(4)] by (simp add: engine_results [OF assms(1)])
  ultimately show ?thesis
    using assms(2,5) url by (auto simp: proccessUri_def group_def Let_def)
qed

section \<open>An engine that behaves as documented\<close>

definition sample_engine :: regex_engine where
  "sample_engine =
     \<lparr>regex_search = \<lambda>pat s. case parse_regex pat of None \<Rightarrow> None | Some (r, n) \<Rightarrow> perl_search r n s,
      regex_match = \<lambda>pat s. case parse_regex pat of None \<Rightarrow> False | Some (r, n) \<Rightarrow> perl_match r s\<rparr>"

lemma sample_engine_ok: "perl_regex sample_engine"
  by (simp add: perl_regex_def sample_engine_def)

definition plain_url :: url_parts where
  "plain_url = sample_url\<lparr>userinfo := None\<rparr>"

lemma plain_url_ok:
  "url_parts_ok plain_url" "scheme plain_url \<in> {''http'', ''https''}" "userinfo plain_url = None"
  "plain_host (host plain_url)" "render_url plain_url = ''https://a-b.org:8443/x?k=v#top''"
proof -
  show "render_url plain_url = ''https://a-b.org:8443/x?k=v#top''"
    by code_simp
  show "url_parts_ok plain_url"
    using sample_url_ok by (simp add: url_parts_ok_def plain_url_def render_url_def sample_url_def)
  show "plain_host (host plain_url)"
    by (simp add: plain_url_def sample_url_def plain_host_def addr_char_def host_labels_ok_def label_ok_def
        alnum_char_def is_dec_def)
qed (simp_all add: plain_url_def sample_url_def)

theorem proccessUri_finds_the_parts_witness:
  "\<exists>el. proccessUri sample_engine ''https://a-b.org:8443/x?k=v#top'' = Some el \<and>
     e_addr el = ''a-b.org'' \<and> e_port el = ''8443'' \<and> e_protocol el = ''https'' \<and> e_urn el = ''/x?k=v#top'' \<and>
     full_url el = render_url (plain_url\<lparr>port_text := Some ''8443''\<rparr>)"
proof -
  have "host plain_url = ''a-b.org''" "used_port plain_url = ''8443''" "scheme plain_url = ''https''"
      "url_tail plain_url = ''/x?k=v#top''"
    by (simp_all add: plain_url_def sample_url_def used_port_def url_tail_def)
  with proccessUri_finds_the_parts [OF sample_engine_ok plain_url_ok(1-4)] plain_url_ok(5)
  show ?thesis by simp
qed

theorem userinfo_taken_for_host_witness:
  "\<exists>el. proccessUri sample_engine (render_url (plain_url\<lparr>userinfo := Some ''alice''\<rparr>)) = Some el \<and>
     e_addr el = ''alice'' \<and>
     e_urn el = CHR ''@'' # host (plain_url\<lparr>userinfo := Some ''alice''\<rparr>) @
       mark_text CHR '':'' (port_text (plain_url\<lparr>userinfo := Some ''alice''\<rparr>)) @
       url_tail (plain_url\<lparr>userinfo := Some ''alice''\<rparr>)"
  by (rule userinfo_taken_for_host [OF sample_engine_ok])
     (simp_all add: plain_url_def sample_url_def addr_char_def is_dec_def)

end
