(* ===== verification/Xhr.thy ===== *)
theory Xhr
  imports Tls_Session Xhr_Uri Base64
begin

text \<open>
  \<open>XMLHttpRequest\<close> (\<open>xmlhttprequest.cpp\<close>, \<open>xmlhttprequest_impl.cpp\<close>): the request object on top of the TLS
  session. A request is its pointer \<open>d\<close>, that is an optional \<open>impl\<close>: it is empty after the request was
  moved from. The session reports to the request through callbacks; each event it appends to its log
  is applied to the request by \<open>observe\<close>. The functions given by the user are called and change
  nothing here. \<open>io_service\<close> is the queue of the posted jobs and its stopped state: \<open>run\<close> returns at
  once while it is stopped. The lambdas hold the address of the request object, so after a move those
  made before it reach the moved-from object, whose pointer is empty (provided it still exists). The time limit
  is a number of milliseconds kept in 64 bits and read as signed; \<open>timer\<close> is whether the wait for it is under
  way, which keeps \<open>run\<close> from returning like any other operation. When a wait ends is not part of the model.
\<close>

section \<open>State\<close>

datatype job = ConnectJob | FetchJob | FetchBodyJob

text \<open>The flag of a job: the request object it was posted by still holds the \<open>impl\<close>.\<close>

record service =
  svc_stopped :: bool
  jobs :: "(job \<times> bool) list"

record 'ng impl =
  xsession :: "'ng session option"
  endpoint :: net_service
  service :: "service option"
  contextSsl :: "tls_context option"
  isAsync :: bool
  addr :: string
  xport :: string
  proto :: string
  urn :: string
  xmethod :: string
  body :: string
  ssl_certificate :: string
  xheader :: fields
  xresponse :: "response option"
  future :: bool
  readyState :: byte
  xtimeout :: "64 word"
  timer :: bool
  timerCallback :: bool
  timeouts :: nat
  state_this :: bool
  ready_this :: bool
  timer_this :: bool

type_synonym 'ng xhr = "'ng impl option"

text \<open>
  What setting up a session depends on outside the repository: the regular expression library, whether
  OpenSSL refuses a certificate, and the uninitialised write buffer.
\<close>

record client_env =
  engine :: regex_engine
  add_failed :: "string \<Rightarrow> bool"
  garbage :: "byte list"

definition new_impl :: "'ng impl" where
  "new_impl =
     \<lparr>xsession = None, endpoint = NetService [] [], service = None, contextSsl = None, isAsync = False, addr = [], xport = [], proto = [],
      urn = [], xmethod = [], body = [], ssl_certificate = [], xheader = [], xresponse = None, future = False,
      readyState = ready_code Unsent, xtimeout = 0, timer = False, timerCallback = False, timeouts = 0,
      state_this = True, ready_this = True, timer_this = True\<rparr>"

section \<open>The callbacks of the session\<close>

definition stop_service :: "'ng impl \<Rightarrow> 'ng impl" where
  "stop_service x = x\<lparr>service := map_option (\<lambda>v. v\<lparr>svc_stopped := True\<rparr>) (service x)\<rparr>"

fun observe :: "event \<Rightarrow> 'ng impl \<Rightarrow> fault + 'ng impl" where
  "observe (StateChange b) x = (if state_this x then Inr (x\<lparr>readyState := b\<rparr>) else Inl NullDeref)"
| "observe (ReadyEvent a r) x = (if ready_this x then Inr (x\<lparr>xresponse := Some r\<rparr>) else Inl NullDeref)"
| "observe ConnectEvent x = Inr x"
| "observe StopEvent x =
     Inr (x\<lparr>service := map_option (\<lambda>v. v\<lparr>svc_stopped := False\<rparr>) (service (stop_service x))\<rparr>)"
| "observe SocketShutdown x = Inr (stop_service x)"

fun observe_all :: "event list \<Rightarrow> 'ng impl \<Rightarrow> fault + 'ng impl" where
  "observe_all [] x = Inr x"
| "observe_all (e # es) x = and_then (observe e x) (observe_all es)"

text \<open>An operation of the session, and what it reports meanwhile.\<close>

definition on_session ::
  "('ng session \<Rightarrow> fault + 'ng session \<times> 'a) \<Rightarrow> 'ng impl \<Rightarrow> fault + 'ng impl \<times> 'a" where
  "on_session f x =
     (case xsession x of
        None \<Rightarrow> Inl NullDeref
      | Some s \<Rightarrow>
          and_then (f s) (\<lambda>(t, a).
          and_then (observe_all (drop (length (log s)) (log t)) (x\<lparr>xsession := Some t\<rparr>)) (\<lambda>x.
            Inr (x, a))))"

definition on_session' :: "('ng session \<Rightarrow> 'ng session) \<Rightarrow> 'ng impl \<Rightarrow> fault + 'ng impl" where
  "on_session' f x = and_then (on_session (\<lambda>s. Inr (f s, ())) x) (\<lambda>(x, _). Inr x)"

definition with_impl :: "('ng impl \<Rightarrow> fault + 'ng impl) \<Rightarrow> 'ng xhr \<Rightarrow> fault + 'ng xhr" where
  "with_impl f d = (case d of None \<Rightarrow> Inl NullDeref | Some x \<Rightarrow> and_then (f x) (\<lambda>x. Inr (Some x)))"

section \<open>Setting up\<close>

definition impl_setupSession :: "client_env \<Rightarrow> 'ng impl \<Rightarrow> 'ng impl \<times> bool" where
  "impl_setupSession env x =
     (let x = x\<lparr>service := Some \<lparr>svc_stopped = False, jobs = []\<rparr>\<rparr>;
          (ctx, failed) =
            (if ssl_certificate x \<noteq> [] then loadCertificate (add_failed env) (ssl_certificate x) new_tls_context
             else (new_tls_context, False));
          x = x\<lparr>contextSsl := Some ctx\<rparr>
      in if failed then (x, False)
         else
           let (ctx, failed) = configureTlsContext ctx; x = x\<lparr>contextSsl := Some ctx\<rparr>
           in if failed then (x, False)
              else
                let (s, net) = HttpTlsSession (garbage env) (addr x) (xport x)
                in (x\<lparr>xsession := Some s, endpoint := net\<rparr>, True))"

definition certificate_ssl :: "'ng impl \<Rightarrow> string" where
  "certificate_ssl x = ssl_certificate x"

definition set_certificate_ssl :: "string \<Rightarrow> 'ng impl \<Rightarrow> 'ng impl" where
  "set_certificate_ssl cert x = x\<lparr>ssl_certificate := cert\<rparr>"

definition initCallbacks :: "'ng impl \<Rightarrow> fault + 'ng impl" where
  "initCallbacks x =
     (if readyState x \<noteq> ready_code Unsent then Inr x
      else case xsession x of
        None \<Rightarrow> Inl NullDeref
      | Some s \<Rightarrow>
          let x = (if \<not> getOnStateChangeCallback s
                   then x\<lparr>xsession := Some (setOnStateChangeCallback True s), state_this := True\<rparr> else x) in
          on_session' (\<lambda>s. if \<not> getOnStopCallback s then setOnStopCallback True s else s) x)"

definition xhr_setup :: "client_env \<Rightarrow> 'ng impl \<Rightarrow> fault + 'ng impl \<times> bool" where
  "xhr_setup env x =
     (if xsession x = None then
        (case impl_setupSession env x of
           (x, True) \<Rightarrow> and_then (initCallbacks x) (\<lambda>x. Inr (x, True))
         | (x, False) \<Rightarrow> Inr (x, False))
      else Inr (x, False))"

definition setupTimer :: "'ng impl \<Rightarrow> fault + 'ng impl" where
  "setupTimer x =
     (if sint (xtimeout x) > 0 then
        (if service x = None then Inl NullDeref else Inr (x\<lparr>timer := True, timer_this := True\<rparr>))
      else Inr x)"

text \<open>The ready callback reads \<open>isAsync\<close> when it is called: a change of the mode changes what it does.\<close>

definition set_mode :: "bool \<Rightarrow> 'ng impl \<Rightarrow> 'ng impl" where
  "set_mode async x =
     x\<lparr>isAsync := async,
       xsession := map_option (\<lambda>s. s\<lparr>on_ready :=
         (case on_ready s of NoReady \<Rightarrow> NoReady | ReadyThen _ \<Rightarrow> ReadyThen (\<not> async))\<rparr>) (xsession x)\<rparr>"

definition prepare :: "client_env \<Rightarrow> string \<Rightarrow> string \<Rightarrow> bool \<Rightarrow> 'ng xhr \<Rightarrow> 'ng xhr \<times> bool" where
  "prepare env method uri async d =
     (let method = to_upper method in
      case d of
        None \<Rightarrow> (None, False)
      | Some x \<Rightarrow>
          let x = set_mode async x in
          (case proccessUri (engine env) uri of
             Some el \<Rightarrow>
               (Some (x\<lparr>addr := e_addr el, xport := e_port el, proto := e_protocol el, urn := e_urn el,
                        xmethod := method\<rparr>), True)
           | None \<Rightarrow> (Some x, False)))"

text \<open>The default constructor, and the constructor with a method and a URL.\<close>

definition default_xhr :: "'ng xhr" where
  "default_xhr = Some new_impl"

definition new_xhr :: "client_env \<Rightarrow> string \<Rightarrow> string \<Rightarrow> bool \<Rightarrow> fault + 'ng xhr" where
  "new_xhr env method url async =
     with_impl (\<lambda>x. and_then (xhr_setup env x) (\<lambda>(x, ok). Inr x))
       (fst (prepare env method url async (Some new_impl)))"

text \<open>Moving from a request: what is left of it, and the request the \<open>impl\<close> now belongs to.\<close>

definition move_from :: "'ng xhr \<Rightarrow> 'ng xhr \<times> 'ng xhr" where
  "move_from d =
     (None, map_option (\<lambda>x. x\<lparr>state_this := False, ready_this := False, timer_this := False,
        service := map_option (\<lambda>v. v\<lparr>jobs := map (\<lambda>(j, _). (j, False)) (jobs v)\<rparr>) (service x)\<rparr>) d)"

section \<open>Opening and aborting\<close>

definition open_ready :: "client_env \<Rightarrow> 'ng xhr \<Rightarrow> fault + 'ng xhr \<times> bool" where
  "open_ready env d =
     (case d of
        None \<Rightarrow> Inr (None, False)
      | Some x \<Rightarrow>
          if ready_code Opened \<le> readyState x then Inr (Some x, False)
          else
            and_then (xhr_setup env x) (\<lambda>(x, ok).
            and_then (setupTimer x) (\<lambda>x.
              case xsession x of
                None \<Rightarrow> Inr (Some x, True)
              | Some s \<Rightarrow>
                  if getOnStateChangeCallback s
                  then and_then (observe (StateChange (ready_code Opened)) x) (\<lambda>x. Inr (Some x, True))
                  else Inr (Some x, True))))"

definition open_request :: "client_env \<Rightarrow> string \<Rightarrow> string \<Rightarrow> bool \<Rightarrow> 'ng xhr \<Rightarrow> fault + 'ng xhr" where
  "open_request env method uri async d =
     (case prepare env method uri async d of
        (d, False) \<Rightarrow> Inr d
      | (d, True) \<Rightarrow> and_then (open_ready env d) (\<lambda>(d, ok). Inr d))"

definition open_default :: "client_env \<Rightarrow> string \<Rightarrow> string \<Rightarrow> 'ng xhr \<Rightarrow> fault + 'ng xhr" where
  "open_default env method url d = open_request env method url False d"

definition setRequestHeader :: "string \<Rightarrow> string \<Rightarrow> 'ng xhr \<Rightarrow> fault + 'ng xhr" where
  "setRequestHeader name v d =
     with_impl (\<lambda>x. Inr (x\<lparr>xheader := emplace name \<lparr>hv_value = v, sensitive = False\<rparr> (xheader x)\<rparr>)) d"

definition open_basic ::
  "client_env \<Rightarrow> string \<Rightarrow> string \<Rightarrow> bool \<Rightarrow> string \<Rightarrow> string \<Rightarrow> 'ng xhr \<Rightarrow> fault + 'ng xhr" where
  "open_basic env method uri async user password d =
     and_then (open_request env method uri async d) (\<lambda>d.
       let buffer = bytes user @ byte_of_char CHR '':'' # bytes password in
       setRequestHeader ''Authorization'' (''Basic '' @ encodeFromArray buffer) d)"

definition openRequest ::
  "client_env \<Rightarrow> string \<Rightarrow> string \<Rightarrow> bool \<Rightarrow> string \<Rightarrow> string \<Rightarrow> 'ng xhr \<Rightarrow> fault + 'ng xhr" where
  "openRequest env method url async user password d = open_basic env method url async user password d"

definition abort :: "'ng xhr \<Rightarrow> fault + 'ng xhr" where
  "abort d =
     (case d of
        None \<Rightarrow> Inr None
      | Some x \<Rightarrow>
          if service x = None then Inl NullDeref
          else and_then (on_session' stop (stop_service x)) (\<lambda>x. Inr (Some x)))"

text \<open>The destructor aborts; \<open>fired\<close> is the handler of the timer, \<open>failed\<close> whether the wait was cancelled.\<close>

definition destroy :: "'ng xhr \<Rightarrow> fault + unit" where
  "destroy d = and_then (abort d) (\<lambda>_. Inr ())"

definition timer_fired :: "bool \<Rightarrow> 'ng impl \<Rightarrow> fault + 'ng xhr" where
  "timer_fired failed x =
     (if failed then Inr (Some x)
      else if \<not> timer_this x then Inl NullDeref
      else
        let x = x\<lparr>timer := False\<rparr> in
        abort (Some (if timerCallback x then x\<lparr>timeouts := timeouts x + 1\<rparr> else x)))"

section \<open>Callbacks, headers and options\<close>

definition xhr_setOnReadyCallback :: "'ng xhr \<Rightarrow> fault + 'ng xhr \<times> bool" where
  "xhr_setOnReadyCallback d =
     (case d of
        None \<Rightarrow> Inl NullDeref
      | Some x \<Rightarrow>
          if xsession x = None then Inr (d, False)
          else
            and_then (on_session' (setOnReadyCallback (ReadyThen (\<not> isAsync x))) x) (\<lambda>x.
              Inr (Some (x\<lparr>ready_this := True\<rparr>), True)))"

definition setOnStateChangedCallback :: "'ng xhr \<Rightarrow> fault + 'ng xhr \<times> bool" where
  "setOnStateChangedCallback d =
     (case d of
        None \<Rightarrow> Inl NullDeref
      | Some x \<Rightarrow>
          if xsession x = None then Inr (d, False)
          else
            and_then (on_session' (setOnStateChangeCallback True) x) (\<lambda>x.
              Inr (Some (x\<lparr>state_this := True\<rparr>), True)))"

definition setOnTimeoutCallback :: "bool \<Rightarrow> 'ng xhr \<Rightarrow> fault + 'ng xhr" where
  "setOnTimeoutCallback cb d = with_impl (\<lambda>x. Inr (x\<lparr>timerCallback := cb\<rparr>)) d"

definition set_timeout :: "64 word \<Rightarrow> 'ng xhr \<Rightarrow> fault + 'ng xhr" where
  "set_timeout milliseconds d =
     with_impl (\<lambda>x. if readyState x \<noteq> ready_code Unsent then Inr x
       else Inr (x\<lparr>xtimeout := milliseconds\<rparr>)) d"

definition get_timeout :: "'ng impl \<Rightarrow> 64 word" where
  "get_timeout x = xtimeout x"

definition get_response :: "'ng impl \<Rightarrow> response option" where
  "get_response x = xresponse x"

definition overrideMimeType :: "string \<Rightarrow> 'ng xhr \<Rightarrow> fault + 'ng xhr" where
  "overrideMimeType m d = with_impl (on_session' (setMimeOverridenType m)) d"

definition getAllResponseHeaders :: "'ng impl \<Rightarrow> string" where
  "getAllResponseHeaders x =
     (case xresponse x of
        None \<Rightarrow> []
      | Some r \<Rightarrow>
          concat (map (\<lambda>(k, v). k @ '': '' @ hv_value v @ [CHR 0x0D, CHR 0x0A]) (rp_header r)))"

definition getResponseHeader :: "string \<Rightarrow> 'ng impl \<Rightarrow> string" where
  "getResponseHeader name x =
     (case xresponse x of
        None \<Rightarrow> []
      | Some r \<Rightarrow> (case find_field name (rp_header r) of None \<Rightarrow> [] | Some (k, v) \<Rightarrow> hv_value v))"

section \<open>Sending\<close>

text \<open>
  How the io service is run after the jobs were posted. The future of the previous asynchronous run is
  destroyed first, and the destructor of a future of \<open>std::async\<close> waits for its thread.
\<close>

datatype run_mode =
    NotRun
  | RunAsync  \<comment> \<open>on a new thread\<close>
  | RunAsyncNext  \<comment> \<open>on a new thread, after waiting for the run of the previous one to return\<close>
  | RunInline

definition post :: "job \<Rightarrow> 'ng impl \<Rightarrow> 'ng impl" where
  "post j x = x\<lparr>service := map_option (\<lambda>v. v\<lparr>jobs := jobs v @ [(j, True)]\<rparr>) (service x)\<rparr>"

definition choose_mode :: "'ng impl \<Rightarrow> 'ng xhr \<times> run_mode" where
  "choose_mode x =
     (if isAsync x
      then (Some (x\<lparr>future := True\<rparr>), if future x then RunAsyncNext else RunAsync)
      else (Some x, RunInline))"

definition sendGet :: "'ng impl \<Rightarrow> 'ng xhr \<times> run_mode" where
  "sendGet x =
     (if service x = None \<or> xsession x = None then (Some x, NotRun)
      else choose_mode (post FetchJob (post ConnectJob (x\<lparr>xresponse := None\<rparr>))))"

definition sendPost :: "string \<Rightarrow> 'ng impl \<Rightarrow> 'ng xhr \<times> run_mode" where
  "sendPost b x =
     (if service x = None \<or> xsession x = None then (Some x, NotRun)
      else choose_mode (post FetchBodyJob (post ConnectJob (x\<lparr>body := b, xresponse := None\<rparr>))))"

definition send :: "'ng xhr \<Rightarrow> 'ng xhr \<times> run_mode" where
  "send d =
     (case d of
        None \<Rightarrow> (None, NotRun)
      | Some x \<Rightarrow>
          (case methodFromString (xmethod x) of
             Get \<Rightarrow> sendGet x
           | Post \<Rightarrow> sendPost [] x
           | Unknown_method \<Rightarrow> (Some x, NotRun)))"

definition send_then :: "'ng xhr \<Rightarrow> fault + 'ng xhr \<times> run_mode" where
  "send_then d =
     (case d of
        None \<Rightarrow> Inl NullDeref
      | Some x \<Rightarrow>
          if xsession x = None then Inr (d, NotRun)
          else and_then (xhr_setOnReadyCallback d) (\<lambda>(d, ok). Inr (send d)))"

definition send_body :: "string \<Rightarrow> 'ng xhr \<Rightarrow> fault + 'ng xhr \<times> run_mode" where
  "send_body b d = (case d of None \<Rightarrow> Inl NullDeref | Some x \<Rightarrow> Inr (sendPost b x))"

section \<open>The posted jobs\<close>

text \<open>\<open>resolve_failed\<close> and \<open>outcome\<close> are the outcomes of the resolver and of connecting.\<close>

definition connect :: "'ng platform \<Rightarrow> bool \<Rightarrow> connect_outcome \<Rightarrow> 'ng impl \<Rightarrow> fault + 'ng impl" where
  "connect p resolve_failed outcome x =
     and_then (on_session (\<lambda>s. if isStopped s then tls_startResolve p resolve_failed outcome s
         else Inr (s, True)) x) (\<lambda>(x, ok). Inr x)"

definition impl_fetch :: "'ng platform \<Rightarrow> string \<Rightarrow> string \<Rightarrow> 'ng impl \<Rightarrow> fault + 'ng impl \<times> int" where
  "impl_fetch p method uri x =
     (let methodValue = methodFromString method in
      if uri = [] \<or> xsession x = None \<or> methodValue = Unknown_method then Inr (x, -1)
      else and_then (on_session (tls_submit_method p (xheader x) uri methodValue) x) (\<lambda>(x, ec, i).
        Inr (x, i)))"

definition impl_fetch_body :: "'ng platform \<Rightarrow> string \<Rightarrow> string \<Rightarrow> 'ng impl \<Rightarrow> fault + 'ng impl \<times> int" where
  "impl_fetch_body p method uri x =
     (let methodValue = methodFromString method in
      if uri = [] \<or> xsession x = None \<or> methodValue = Unknown_method then Inr (x, -1)
      else and_then (on_session (tls_submit_body p (xheader x) uri methodValue) x) (\<lambda>(x, ec, i).
        Inr (x, i)))"

definition fetch_url :: "'ng impl \<Rightarrow> string" where
  "fetch_url x = proto x @ ''://'' @ addr x @ '':'' @ xport x @ urn x"

definition stop_on_error :: "'ng impl \<times> int \<Rightarrow> fault + 'ng impl" where
  "stop_on_error r = (case r of (x, i) \<Rightarrow> if i < 0 then on_session' stop x else Inr x)"

definition fetch :: "'ng platform \<Rightarrow> 'ng impl \<Rightarrow> fault + 'ng impl" where
  "fetch p x =
     (case xsession x of
        None \<Rightarrow> Inl NullDeref
      | Some s \<Rightarrow>
          if isStopped s then Inr x
          else and_then (impl_fetch p (xmethod x) (fetch_url x) x) stop_on_error)"

definition fetchWithBody :: "'ng platform \<Rightarrow> 'ng impl \<Rightarrow> fault + 'ng impl" where
  "fetchWithBody p x = and_then (impl_fetch_body p (xmethod x) (fetch_url x) x) stop_on_error"

fun run_job :: "'ng platform \<Rightarrow> bool \<Rightarrow> connect_outcome \<Rightarrow> job \<Rightarrow> 'ng impl \<Rightarrow> fault + 'ng impl" where
  "run_job p resolve_failed outcome ConnectJob x = connect p resolve_failed outcome x"
| "run_job p resolve_failed outcome FetchJob x = fetch p x"
| "run_job p resolve_failed outcome FetchBodyJob x = fetchWithBody p x"

text \<open>Running the queue of the io service: the next job, unless it is stopped, as often as the fuel allows.\<close>

fun run_jobs ::
  "'ng platform \<Rightarrow> bool \<Rightarrow> connect_outcome \<Rightarrow> nat \<Rightarrow> 'ng impl \<Rightarrow> fault + 'ng impl" where
  "run_jobs p resolve_failed outcome 0 x = Inr x"
| "run_jobs p resolve_failed outcome (Suc n) x =
     (case service x of
        None \<Rightarrow> Inr x
      | Some v \<Rightarrow>
          if svc_stopped v then Inr x
          else case jobs v of
            [] \<Rightarrow> Inr x
          | (j, here) # js \<Rightarrow>
              if \<not> here then Inl NullDeref
              else and_then (run_job p resolve_failed outcome j (x\<lparr>service := Some (v\<lparr>jobs := js\<rparr>)\<rparr>))
                (run_jobs p resolve_failed outcome n))"

end
