(* ===== verification/Xhr_Run.thy ===== *)
theory Xhr_Run
  imports Xhr
begin

text \<open>
  What the callbacks of the session change in a request, and the invariant \<open>attached\<close>: whatever the user, the
  timer and the io service do with a request that has a session, its pointers stay valid.
\<close>

section \<open>What the callbacks of the session change\<close>

text \<open>Observing events changes the ready state, the response and the stopped flag of the service.\<close>

definition same_request :: "'ng impl \<Rightarrow> 'ng impl \<Rightarrow> bool" where
  "same_request x y \<longleftrightarrow>
     y = x\<lparr>readyState := readyState y, xresponse := xresponse y, service := service y\<rparr> \<and>
     map_option jobs (service y) = map_option jobs (service x)"

lemma same_request_refl [simp]: "same_request x x"
  by (simp add: same_request_def)

lemma same_request_trans: "same_request x y \<Longrightarrow> same_request y z \<Longrightarrow> same_request x z"
  unfolding same_request_def by (cases x; cases y; cases z; simp)

lemma observe_same: "observe e x = Inr y \<Longrightarrow> same_request x y"
  by (cases e; cases "service x")
    (auto simp: same_request_def stop_service_def split: if_splits)

lemma observe_all_same: "observe_all es x = Inr y \<Longrightarrow> same_request x y"
proof (induction es arbitrary: x)
  case (Cons e es)
  then obtain z where "observe e x = Inr z" "observe_all es z = Inr y"
    by (auto simp: and_then_Inr_iff)
  then show ?case
    using Cons.IH observe_same same_request_trans by blast
qed simp

lemma same_requestD:
  assumes "same_request x y"
  shows "xsession y = xsession x" "endpoint y = endpoint x" "isAsync y = isAsync x" "xheader y = xheader x"
    "state_this y = state_this x" "ready_this y = ready_this x" "timer_this y = timer_this x"
    "xmethod y = xmethod x" "fetch_url y = fetch_url x"
    "map_option jobs (service y) = map_option jobs (service x)"
proof -
  obtain r a v where y: "y = x\<lparr>readyState := r, xresponse := a, service := v\<rparr>"
    using assms unfolding same_request_def by blast
  show "xsession y = xsession x" "endpoint y = endpoint x" "isAsync y = isAsync x" "xheader y = xheader x"
    "state_this y = state_this x" "ready_this y = ready_this x" "timer_this y = timer_this x"
    "xmethod y = xmethod x" "fetch_url y = fetch_url x"
    unfolding y by (simp_all add: fetch_url_def)
  show "map_option jobs (service y) = map_option jobs (service x)"
    using assms unfolding same_request_def by (rule conjunct2)
qed

lemma on_session_Inr:
  assumes "on_session f x = Inr (y, a)"
  obtains s t where "xsession x = Some s" "f s = Inr (t, a)" "xsession y = Some t"
    "same_request (x\<lparr>xsession := Some t\<rparr>) y"
proof -
  obtain s where s: "xsession x = Some s"
    using assms by (cases "xsession x") (simp_all add: on_session_def)
  then obtain t where t: "f s = Inr (t, a)"
      "observe_all (drop (length (log s)) (log t)) (x\<lparr>xsession := Some t\<rparr>) = Inr y"
    using assms by (auto simp: on_session_def and_then_Inr_iff split: prod.splits)
  note same = observe_all_same [OF t(2)]
  have "xsession y = Some t"
    using same_requestD(1) [OF same] by simp
  then show ?thesis
    by (rule that [OF s t(1) _ same])
qed

text \<open>An operation of the session that reports nothing is applied to the session and to nothing else.\<close>

lemma on_session_quiet:
  assumes "xsession x = Some s" and "f s = Inr (t, a)" and "log t = log s"
  shows "on_session f x = Inr (x\<lparr>xsession := Some t\<rparr>, a)"
  using assms by (simp add: on_session_def)

section \<open>The request is consistent\<close>

text \<open>
  A request with a session: it has an io service too, and its callbacks, its timer and its posted jobs
  refer to the object that holds it.
\<close>

definition attached :: "'ng impl \<Rightarrow> bool" where
  "attached x \<longleftrightarrow>
     xsession x \<noteq> None \<and> service x \<noteq> None \<and> state_this x \<and> ready_this x \<and> timer_this x \<and>
     (\<forall>v. service x = Some v \<longrightarrow> list_all snd (jobs v))"

lemma attached_same:
  assumes "same_request x y"
  shows "attached y = attached x"
proof -
  have "map_option jobs (service y) = map_option jobs (service x)"
    by (rule same_requestD(10) [OF assms])
  then have "(service y \<noteq> None) = (service x \<noteq> None)"
      "(\<forall>v. service y = Some v \<longrightarrow> list_all snd (jobs v)) = (\<forall>v. service x = Some v \<longrightarrow> list_all snd (jobs v))"
    by (cases "service x"; cases "service y"; simp)+
  then show ?thesis
    using same_requestD(1,5-7) [OF assms] by (simp add: attached_def)
qed

lemma attached_session [simp]: "attached x \<Longrightarrow> attached (x\<lparr>xsession := Some t\<rparr>)"
  by (simp add: attached_def)

lemma attached_on_session: "attached x \<Longrightarrow> on_session f x = Inr (y, a) \<Longrightarrow> attached y"
  by (metis attached_same attached_session on_session_Inr)

lemma attached_on_session': "attached x \<Longrightarrow> on_session' f x = Inr y \<Longrightarrow> attached y"
  unfolding on_session'_def by (auto simp: and_then_Inr_iff intro: attached_on_session)

text \<open>Events reach an attached request.\<close>

lemma attached_observe:
  assumes "attached x"
  shows "\<exists>y. observe_all es x = Inr y"
  using assms
proof (induction es arbitrary: x)
  case (Cons e es)
  then obtain y where y: "observe e x = Inr y"
    by (cases e) (auto simp: attached_def)
  then have "attached y"
    using Cons.prems attached_same [OF observe_same] by blast
  then show ?case
    using Cons.IH y by simp
qed simp

lemma attached_stop_service [simp]: "attached (stop_service x) = attached x"
  by (rule attached_same) (cases "service x"; simp add: same_request_def stop_service_def)

lemma attached_abort:
  assumes "attached x"
  shows "\<exists>y. abort (Some x) = Inr (Some y) \<and> attached y"
proof -
  have x: "attached (stop_service x)"
    using assms by simp
  then obtain s where s: "xsession (stop_service x) = Some s"
    by (auto simp: attached_def)
  obtain y where "on_session (\<lambda>s. Inr (stop s, ())) (stop_service x) = Inr (y, ())"
    using attached_observe [of "(stop_service x)\<lparr>xsession := Some (stop s)\<rparr>"] x s
    by (force simp: on_session_def)
  then have "on_session' stop (stop_service x) = Inr y"
    by (simp add: on_session'_def)
  then show ?thesis
    using attached_on_session' [OF x] assms by (auto simp: abort_def attached_def)
qed

lemma attached_setup:
  "attached x \<Longrightarrow> xhr_setup env x = Inr (x, False)"
  by (auto simp: xhr_setup_def attached_def)

lemma attached_open_ready:
  assumes "attached x" and "open_ready env (Some x) = Inr (d, ok)"
  shows "\<exists>y. d = Some y \<and> attached y"
proof (cases "ready_code Opened \<le> readyState x")
  case True
  then show ?thesis using assms by (auto simp: open_ready_def)
next
  case False
  then show ?thesis
    using assms by (auto simp: open_ready_def attached_setup setupTimer_def attached_def and_then_Inr_iff
        split: if_splits)
qed

lemma attached_prepare:
  assumes "attached x" and "prepare env m u a (Some x) = (d, ok)"
  shows "\<exists>y. d = Some y \<and> attached y"
  using assms by (auto simp: prepare_def set_mode_def attached_def Let_def split: option.splits)

lemma attached_open_request:
  assumes "attached x" and "open_request env m u a (Some x) = Inr d"
  shows "\<exists>y. d = Some y \<and> attached y"
proof -
  obtain d1 ok where d1: "prepare env m u a (Some x) = (d1, ok)"
    by (metis prod.exhaust)
  then obtain y where "d1 = Some y" "attached y"
    using attached_prepare [OF assms(1)] by blast
  then show ?thesis
    using assms(2) d1 attached_open_ready [of y env]
    by (cases ok) (auto simp: open_request_def and_then_Inr_iff split: prod.splits)
qed

lemma attached_post [simp]: "attached (post j x) = attached x"
  by (auto simp: attached_def post_def)

lemma attached_ready:
  assumes "attached x" and "xhr_setOnReadyCallback (Some x) = Inr (d, ok)"
  shows "\<exists>y. d = Some y \<and> attached y"
  using assms attached_on_session' [OF assms(1)]
  by (auto simp: xhr_setOnReadyCallback_def and_then_Inr_iff split: if_splits)
    (fastforce simp: attached_def)

lemma attached_send:
  assumes "attached x"
  shows "sendGet x = (d, mode) \<Longrightarrow> \<exists>y. d = Some y \<and> attached y"
    and "sendPost b x = (d, mode) \<Longrightarrow> \<exists>y. d = Some y \<and> attached y"
proof -
  have mode: "choose_mode y = (d, mode) \<Longrightarrow> attached y \<Longrightarrow> \<exists>y. d = Some y \<and> attached y" for y
    by (auto simp: choose_mode_def attached_def split: if_splits)
  have "attached (x\<lparr>xresponse := None\<rparr>)" "attached (x\<lparr>body := b, xresponse := None\<rparr>)"
    using assms by (simp_all add: attached_def)
  then show "sendGet x = (d, mode) \<Longrightarrow> \<exists>y. d = Some y \<and> attached y"
    "sendPost b x = (d, mode) \<Longrightarrow> \<exists>y. d = Some y \<and> attached y"
    using assms mode by (auto simp: sendGet_def sendPost_def split: if_splits)
qed

lemma attached_send_any:
  assumes "attached x" and "send (Some x) = (d, mode)"
  shows "\<exists>y. d = Some y \<and> attached y"
  using assms attached_send [OF assms(1)]
  by (auto simp: send_def split: http_method.splits)

text \<open>A posted job does nothing to the request but through its session.\<close>

definition session_moves :: "'ng impl \<Rightarrow> 'ng impl \<Rightarrow> bool" where
  "session_moves x y \<longleftrightarrow> x = y \<or> (\<exists>t. same_request (x\<lparr>xsession := Some t\<rparr>) y)"

lemma same_request_session:
  assumes "same_request (x\<lparr>xsession := Some t\<rparr>) y"
  shows "same_request (x\<lparr>xsession := Some u\<rparr>) (y\<lparr>xsession := Some u\<rparr>)"
proof -
  define r a v where "r = readyState y" and "a = xresponse y" and "v = service y"
  have y: "y = x\<lparr>xsession := Some t, readyState := r, xresponse := a, service := v\<rparr>"
    using assms unfolding same_request_def r_def a_def v_def by (rule conjunct1)
  have "map_option jobs v = map_option jobs (service x)"
    using same_requestD(10) [OF assms] by (simp add: y)
  then show ?thesis
    unfolding y same_request_def by simp
qed

lemma session_moves_trans:
  assumes "session_moves x y" and "session_moves y z"
  shows "session_moves x z"
proof (cases "x = y \<or> y = z")
  case True
  then show ?thesis using assms by auto
next
  case False
  then obtain t u where "same_request (x\<lparr>xsession := Some t\<rparr>) y" "same_request (y\<lparr>xsession := Some u\<rparr>) z"
    using assms unfolding session_moves_def by blast
  then have "same_request (x\<lparr>xsession := Some u\<rparr>) z"
    using same_request_session same_request_trans by blast
  then show ?thesis
    unfolding session_moves_def by blast
qed

lemma on_session_moves: "on_session f x = Inr (y, a) \<Longrightarrow> session_moves x y"
  unfolding session_moves_def by (metis on_session_Inr)

lemma on_session'_moves: "on_session' f x = Inr y \<Longrightarrow> session_moves x y"
  unfolding on_session'_def by (auto simp: and_then_Inr_iff dest: on_session_moves)

lemma run_job_moves:
  assumes "run_job p rf oc j x = Inr y"
  shows "session_moves x y"
proof -
  have self: "session_moves x x"
    by (simp add: session_moves_def)
  have fetched: "session_moves x z"
    if "impl_fetch p m u x = Inr (z, i) \<or> impl_fetch_body p m u x = Inr (z, i)" for m u z i
    using that self
    by (auto simp: impl_fetch_def impl_fetch_body_def Let_def and_then_Inr_iff split: if_splits
        dest: on_session_moves)
  have stopped: "session_moves z y" if "stop_on_error (z, i) = Inr y" for z i
    using that by (auto simp: stop_on_error_def session_moves_def [of y y] split: if_splits
        dest: on_session'_moves)
  show ?thesis
  proof (cases j)
    case ConnectJob
    then show ?thesis
      using assms by (auto simp: connect_def and_then_Inr_iff dest: on_session_moves)
  next
    case FetchJob
    then show ?thesis
      using assms self
      by (auto simp: fetch_def and_then_Inr_iff split: option.splits if_splits
          intro: session_moves_trans fetched stopped)
  next
    case FetchBodyJob
    then show ?thesis
      using assms
      by (auto simp: fetchWithBody_def and_then_Inr_iff intro: session_moves_trans fetched stopped)
  qed
qed

lemma session_moves_header: "session_moves x y \<Longrightarrow> xheader y = xheader x"
  unfolding session_moves_def using same_requestD(4) by fastforce

lemma attached_job: "attached x \<Longrightarrow> run_job p rf oc j x = Inr y \<Longrightarrow> attached y"
  using run_job_moves attached_same attached_session unfolding session_moves_def by metis

lemma attached_jobs:
  "attached x \<Longrightarrow> run_jobs p rf oc n x = Inr y \<Longrightarrow> attached y"
proof (induction n arbitrary: x)
  case (Suc n)
  show ?case
  proof (cases "\<exists>v j here js. service x = Some v \<and> \<not> svc_stopped v \<and> jobs v = (j, here) # js")
    case True
    then obtain v j here js where v: "service x = Some v" "\<not> svc_stopped v" "jobs v = (j, here) # js"
      by blast
    then have "attached (x\<lparr>service := Some (v\<lparr>jobs := js\<rparr>)\<rparr>)" and here
      using Suc.prems(1) by (auto simp: attached_def)
    then show ?thesis
      using Suc.prems(2) v by (auto simp: and_then_Inr_iff intro: Suc.IH attached_job)
  next
    case False
    then show ?thesis
      using Suc.prems by (auto split: option.splits if_splits list.splits)
  qed
qed simp

text \<open>What a user, the timer and the io service do with a request, one operation at a time.\<close>

inductive xhr_step :: "client_env \<Rightarrow> 'ng platform \<Rightarrow> 'ng xhr \<Rightarrow> 'ng xhr \<Rightarrow> bool"
  for env :: client_env and p :: "'ng platform" where
  reopening: "open_request env m u a d = Inr d' \<Longrightarrow> xhr_step env p d d'"
| opening_basic: "open_basic env m u a user pw d = Inr d' \<Longrightarrow> xhr_step env p d d'"
| opening_ready: "open_ready env d = Inr (d', ok) \<Longrightarrow> xhr_step env p d d'"
| adding_header: "setRequestHeader k v d = Inr d' \<Longrightarrow> xhr_step env p d d'"
| overriding: "overrideMimeType m d = Inr d' \<Longrightarrow> xhr_step env p d d'"
| limiting: "set_timeout n d = Inr d' \<Longrightarrow> xhr_step env p d d'"
| on_timeout: "setOnTimeoutCallback cb d = Inr d' \<Longrightarrow> xhr_step env p d d'"
| on_change: "setOnStateChangedCallback d = Inr (d', ok) \<Longrightarrow> xhr_step env p d d'"
| sending: "send d = (d', mode) \<Longrightarrow> xhr_step env p d d'"
| sending_then: "send_then d = Inr (d', mode) \<Longrightarrow> xhr_step env p d d'"
| sending_body: "send_body b d = Inr (d', mode) \<Longrightarrow> xhr_step env p d d'"
| aborting: "abort d = Inr d' \<Longrightarrow> xhr_step env p d d'"
| timing_out: "timer_fired failed x = Inr d' \<Longrightarrow> xhr_step env p (Some x) d'"
| running: "run_jobs p rf oc n x = Inr y \<Longrightarrow> xhr_step env p (Some x) (Some y)"
| completing: "on_session f x = Inr (y, ()) \<Longrightarrow> xhr_step env p (Some x) (Some y)"

inductive_cases xhr_stepE: "xhr_step env p (Some x) d"

lemma attached_step:
  assumes "attached x" and "xhr_step env p (Some x) d"
  shows "\<exists>y. d = Some y \<and> attached y"
  using assms(2)
proof (cases rule: xhr_step.cases)
  case (opening_basic m u a user pw)
  then show ?thesis
    using attached_open_request [OF assms(1)]
    by (fastforce simp: open_basic_def setRequestHeader_def with_impl_def and_then_Inr_iff Let_def attached_def)
next
  case (overriding m)
  then show ?thesis
    using attached_on_session' [OF assms(1)] by (auto simp: overrideMimeType_def with_impl_def and_then_Inr_iff)
next
  case (on_change ok)
  then show ?thesis
    using assms(1) attached_on_session' [OF assms(1)]
    by (auto simp: setOnStateChangedCallback_def and_then_Inr_iff split: if_splits) (fastforce simp: attached_def)
next
  case (sending_then mode)
  then show ?thesis
    using assms(1) attached_ready [OF assms(1)] attached_send_any
    by (auto simp: send_then_def and_then_Inr_iff split: if_splits) blast
next
  case (timing_out failed)
  then show ?thesis
    using assms(1) attached_abort [of "x\<lparr>timer := False, timeouts := timeouts x + 1\<rparr>"]
      attached_abort [of "x\<lparr>timer := False\<rparr>"]
    by (auto simp: timer_fired_def attached_def Let_def split: if_splits)
next
  case (running rf oc n y)
  then show ?thesis
    using attached_jobs [OF assms(1)] by blast
next
  case (completing f y)
  then show ?thesis
    using attached_on_session [OF assms(1) completing(2)] by simp
next
  case (sending_body b mode)
  then show ?thesis
    using attached_send(2) [OF assms(1)] by (simp add: send_body_def)
next
  case (sending mode)
  then show ?thesis
    using attached_send_any [OF assms(1)] by blast
next
  case aborting
  then show ?thesis
    using attached_abort [OF assms(1)] by auto
next
  case (reopening m u a)
  then show ?thesis
    using attached_open_request [OF assms(1)] by blast
next
  case (opening_ready ok)
  then show ?thesis
    using attached_open_ready [OF assms(1)] by blast
qed (use assms(1) in
    \<open>auto simp: setRequestHeader_def set_timeout_def setOnTimeoutCallback_def with_impl_def attached_def
       and_then_Inr_iff split: if_splits\<close>)

section \<open>The time limit\<close>

definition running :: "'ng impl \<Rightarrow> bool" where
  "running x \<longleftrightarrow> (case service x of None \<Rightarrow> False | Some v \<Rightarrow> \<not> svc_stopped v)"

lemma stop_service_twice [simp]: "stop_service (stop_service x) = stop_service x"
  by (cases "service x") (simp_all add: stop_service_def)

lemma stop_service_simps [simp]:
  "xresponse (stop_service x) = xresponse x" "readyState (stop_service x) = readyState x"
  "xsession (stop_service x) = xsession x" "timer (stop_service x) = timer x" "\<not> running (stop_service x)"
  by (simp_all add: stop_service_def running_def split: option.split)

text \<open>When the time limit passes, the service and the session are stopped and the callback is called, if there is one.\<close>

lemma timer_fired_eq:
  assumes "attached x" and "xsession x = Some s"
  shows "timer_fired False x = Inr (Some ((stop_service x)\<lparr>xsession := Some (stop s), timer := False,
    timeouts := timeouts x + (if timerCallback x then 1 else 0)\<rparr>))"
proof -
  define x' where "x' = x\<lparr>timer := False, timeouts := timeouts x + (if timerCallback x then 1 else 0)\<rparr>"
  have x': "service x' \<noteq> None" "xsession x' = Some s" and "timer_this x"
    using assms by (auto simp: x'_def attached_def)
  have again: "stop_service ((stop_service x')\<lparr>xsession := Some (stop s)\<rparr>) = (stop_service x')\<lparr>xsession := Some (stop s)\<rparr>"
    by (cases "service x'") (simp_all add: stop_service_def)
  have "timer_fired False x = abort (Some x')"
    using \<open>timer_this x\<close> by (cases x) (simp add: timer_fired_def x'_def Let_def)
  also have "\<dots> = Inr (Some ((stop_service x')\<lparr>xsession := Some (stop s)\<rparr>))"
    using x' again by (simp add: abort_def on_session'_def on_session_def)
  also have "(stop_service x')\<lparr>xsession := Some (stop s)\<rparr> = (stop_service x)\<lparr>xsession := Some (stop s), timer := False,
      timeouts := timeouts x + (if timerCallback x then 1 else 0)\<rparr>"
    by (simp add: x'_def stop_service_def)
  finally show ?thesis .
qed

section \<open>A concrete request\<close>

definition sample_env :: client_env where
  "sample_env = \<lparr>engine = sample_engine, add_failed = \<lambda>_. False, garbage = []\<rparr>"

definition sample_elements :: elements where
  "sample_elements = \<lparr>e_addr = ''a-b.org'', e_port = ''8443'', e_protocol = ''https'', e_urn = ''/x?k=v#top''\<rparr>"

definition sample_request :: "(byte list \<times> byte list) impl" where
  "sample_request = new_impl
     \<lparr>addr := ''a-b.org'', xport := ''8443'', proto := ''https'', urn := ''/x?k=v#top'', xmethod := ''GET'',
      service := Some \<lparr>svc_stopped = False, jobs = []\<rparr>,
      contextSsl := Some (fst (configureTlsContext new_tls_context)),
      xsession := Some ((new_session [])\<lparr>on_state := True, on_stop := True\<rparr>),
      endpoint := NetService ''a-b.org'' ''8443''\<rparr>"

lemma sample_uri:
  "proccessUri (engine sample_env) ''https://a-b.org:8443/x?k=v#top'' = Some sample_elements"
  "proccessUri (engine sample_env) ''ftp:x'' = None"
proof -
  have "render_url plain_url = ''https://a-b.org:8443/x?k=v#top''" "used_port plain_url = ''8443''"
      "host plain_url = ''a-b.org''" "scheme plain_url = ''https''" "url_tail plain_url = ''/x?k=v#top''"
    using plain_url_ok(5) by (simp_all add: plain_url_def sample_url_def used_port_def url_tail_def)
  then show "proccessUri (engine sample_env) ''https://a-b.org:8443/x?k=v#top'' = Some sample_elements"
    using proccessUri_parts [OF sample_engine_ok plain_url_ok(1-4)]
    by (auto simp: sample_env_def sample_elements_def)
  have "perl_search url_regex 3 ''ftp:x'' = None"
    by code_simp
  then show "proccessUri (engine sample_env) ''ftp:x'' = None"
    by (simp add: proccessUri_def sample_env_def engine_results [OF sample_engine_ok])
qed

lemma sample_new:
  "new_xhr sample_env ''get'' ''https://a-b.org:8443/x?k=v#top'' False = Inr (Some sample_request)"
proof -
  have "to_upper ''get'' = ''GET''"
    by code_simp
  then show ?thesis
    using sample_uri(1)
    by (simp add: new_xhr_def prepare_def set_mode_def with_impl_def xhr_setup_def impl_setupSession_def configureTlsContext_def
        initCallbacks_def on_session'_def on_session_def setOnStateChangeCallback_def setOnStopCallback_def
        Let_def sample_request_def sample_elements_def new_session_def new_impl_def)
       (simp add: sample_env_def)
qed

lemma sample_attached: "attached sample_request"
  by (simp add: attached_def sample_request_def new_impl_def)

end
