(* ===== verification/Xhr_Guarantees.thy ===== *)
theory Xhr_Guarantees
  imports Xhr_Run
begin

text \<open>
  The properties of whole requests: what a synchronous GET does, which response the request keeps, when
  its destructor is safe, and the sequences of calls after which it does something else than its user
  asked for.
\<close>

section \<open>Construction and destruction\<close>

lemma new_xhr_attached:
  assumes "new_xhr env m u a = Inr d"
  shows "\<exists>x. d = Some x \<and> attached x"
  using assms
  by (auto simp: new_xhr_def prepare_def set_mode_def new_impl_def with_impl_def xhr_setup_def
      impl_setupSession_def configureTlsContext_def initCallbacks_def on_session'_def on_session_def new_session_def
      setOnStateChangeCallback_def setOnStopCallback_def attached_def Let_def split: option.splits)

lemma attached_reachable:
  assumes "(xhr_step env p)\<^sup>*\<^sup>* (Some x) d" and "attached x"
  shows "\<exists>y. d = Some y \<and> attached y"
  using assms(1)
proof (induction rule: rtranclp_induct)
  case base
  then show ?case using assms(2) by simp
next
  case (step d d')
  then show ?case using attached_step by blast
qed

text \<open>
  C15: The destructor is safe for a request that was constructed with a method and a URL, whatever they
  are: after any calls on it, completions of the session, time-outs and runs
  of its jobs, aborting it dereferences no empty pointer.
\<close>

theorem destructor_is_safe:
  assumes "new_xhr env m u a = Inr d0" and "(xhr_step env p)\<^sup>*\<^sup>* d0 d"
  shows "destroy d = Inr ()"
proof -
  obtain x where "d0 = Some x" "attached x"
    using new_xhr_attached [OF assms(1)] by blast
  then obtain y where "d = Some y" "attached y"
    using attached_reachable [of env p x d] assms(2) by blast
  then show ?thesis
    using attached_abort by (fastforce simp: destroy_def)
qed

text \<open>
  The destructor of a request without a session dereferences an empty pointer: of a request that
  was constructed without arguments and never opened, and of one whose only \<open>open\<close> was refused because
  the URL is not understood.
\<close>

theorem destructor_of_unopened_faults:
  assumes "proccessUri (engine env) uri = None"
  shows "destroy (Some new_impl) = Inl NullDeref \<and>
    and_then (open_request env m uri a (Some new_impl)) destroy = Inl NullDeref"
  using assms by (simp add: destroy_def abort_def new_impl_def open_request_def prepare_def set_mode_def)

text \<open>
  C40: A request that is moved can no longer be opened: the callbacks its session got at its construction
  refer to the request it was moved from, and the first change of state dereferences the empty pointer
  of that one.
\<close>

theorem moved_request_faults:
  assumes "new_xhr env m u a = Inr d"
  shows "open_ready env (snd (move_from d)) = Inl NullDeref"
  using assms
  by (auto simp: new_xhr_def prepare_def set_mode_def new_impl_def with_impl_def xhr_setup_def
      impl_setupSession_def configureTlsContext_def initCallbacks_def on_session'_def on_session_def new_session_def
      setOnStateChangeCallback_def setOnStopCallback_def Let_def move_from_def open_ready_def setupTimer_def
      ready_code_def split: option.splits)

section \<open>Opening\<close>

text \<open>
  C27: Basic authentication sends the base64 encoding of RFC 4648 of user, colon and password, as one
  more \<open>Authorization\<close> field behind those already set; everything else is as \<open>open\<close> leaves it.
\<close>

theorem basic_auth_field:
  assumes "open_request env m uri a d = Inr (Some x)" and "fields_sorted (xheader x)"
  shows "\<exists>y. open_basic env m uri a user pw d = Inr (Some y) \<and>
    field_values ''Authorization'' (xheader y) = field_values ''Authorization'' (xheader x) @
      [\<lparr>hv_value = ''Basic '' @ base64_spec (bytes (user @ '':'' @ pw)), sensitive = False\<rparr>] \<and>
    (\<forall>k. k \<noteq> ''Authorization'' \<longrightarrow> field_values k (xheader y) = field_values k (xheader x)) \<and>
    y\<lparr>xheader := xheader x\<rparr> = x"
proof -
  have code: "encodeFromArray b = base64_spec b" for b
    by (simp add: encodeFromArray_def base64_loop_padded base64_spec_padded Let_def)
  show ?thesis
    using assms by (simp add: open_basic_def setRequestHeader_def with_impl_def Let_def code
        field_values_emplace)
qed

text \<open>
  C36: A request stays bound to the host it was constructed for. Opening it again with another URL is
  accepted, or refused because it is open already; in both cases the next fetch asks for the new URL,
  and the connection goes to the old host and port.
\<close>

theorem reopened_request_keeps_its_host:
  assumes "attached x" and "proccessUri (engine env) uri = Some el"
  shows "\<exists>y. open_request env m uri a (Some x) = Inr (Some y) \<and> endpoint y = endpoint x \<and>
    fetch_url y = full_url el \<and> xmethod y = to_upper m"
proof -
  let ?x = "(set_mode a x)\<lparr>addr := e_addr el, xport := e_port el, proto := e_protocol el, urn := e_urn el,
    xmethod := to_upper m\<rparr>"
  have prep: "prepare env m uri a (Some x) = (Some ?x, True)"
    using assms(2) by (simp add: prepare_def Let_def)
  have x: "attached ?x"
    using attached_prepare [OF assms(1) prep] by simp
  obtain s where "xsession ?x = Some s"
    using x by (auto simp: attached_def)
  then show ?thesis
    using x by (auto simp: open_request_def prep open_ready_def attached_setup setupTimer_def
        attached_def fetch_url_def full_url_def set_mode_def)
qed

section \<open>Sending and the response\<close>

text \<open>
  When a stream is closed, the request keeps its response. The ready callback installed by the request
  stores the response the stream has collected, after the ready state became \<open>Done\<close>; the stream is
  removed; and in synchronous mode the session and the io service are stopped, so that \<open>send\<close> returns.
\<close>

theorem response_is_kept:
  assumes "attached x" and "xsession x = Some s" and "findStream i s = Some r" and "on_ready s = ReadyThen sync"
    and "on_state s" and "\<not> stopped s"
  shows "\<exists>y t v. on_session' (onStreamClose i) x = Inr y \<and> xresponse y = Some (rp r) \<and>
    readyState y = ready_code Done \<and> xsession y = Some t \<and> findStream i t = None \<and> stopped t = sync \<and>
    service y = Some v \<and> svc_stopped v = (sync \<or> svc_stopped (the (service x)))"
proof -
  obtain v where v: "service x = Some v" and here: "state_this x" "ready_this x"
    using assms(1) by (auto simp: attached_def)
  let ?t = "onStreamClose i s"
  have upd: "log (onStreamClose i s) = log s @ [StateChange (ready_code Done), ReadyEvent (rq r) (rp r)] @
      (if sync then [SocketShutdown] else [])"
    using assms(3-6) by (simp add: onStreamClose_def ready_hook_def Let_def)
  have "stopped ?t = sync" "findStream i ?t = None"
    using assms(3-6) by (simp_all add: onStreamClose_def ready_hook_def Let_def findStream_remove)
  then show ?thesis
    using assms(2) upd v here
    by (cases sync) (simp_all add: on_session'_def on_session_def stop_service_def)
qed

text \<open>
  A request whose io service is stopped sends nothing any more, and a synchronous request is in that
  state after its first response. \<open>send\<close> forgets the previous response and posts its two jobs, but
  running the io service, however long, executes none of them.
\<close>

lemma stopped_service_sends_nothing:
  assumes "attached x" and "service x = Some v" and "svc_stopped v" and "methodFromString (xmethod x) \<noteq> Unknown_method"
  shows "\<exists>y mode w. send (Some x) = (Some y, mode) \<and> service y = Some w \<and>
    length (jobs w) = length (jobs v) + 2 \<and> xresponse y = None \<and> xsession y = xsession x \<and>
    run_jobs p rf oc n y = Inr y"
proof -
  have "run_jobs p rf oc n y = Inr y" if "service y = Some w" "svc_stopped w" for y w
    using that by (cases n) simp_all
  then show ?thesis
    using assms by (cases "methodFromString (xmethod x)")
      (auto simp: send_def sendGet_def sendPost_def post_def choose_mode_def attached_def)
qed

text \<open>
  Headers stay with the request: fetching does not use them up, although the source moves them into
  the call, so that a later fetch sends them again.
\<close>

lemma headers_are_sent_again:
  assumes "run_jobs p rf oc n x = Inr y"
  shows "xheader y = xheader x"
  using assms
proof (induction n arbitrary: x)
  case (Suc n)
  show ?case
  proof (cases "run_jobs p rf oc (Suc n) x = Inr x")
    case True
    then show ?thesis using Suc.prems by simp
  next
    case False
    then obtain v j js z where "service x = Some v" "run_job p rf oc j (x\<lparr>service := Some (v\<lparr>jobs := js\<rparr>)\<rparr>) = Inr z"
        "run_jobs p rf oc n z = Inr y"
      using Suc.prems by (auto simp: and_then_Inr_iff split: option.splits if_splits list.splits)
    then show ?thesis
      using Suc.IH session_moves_header [OF run_job_moves] by fastforce
  qed
qed simp

section \<open>Applied to a concrete request\<close>

theorem destructor_is_safe_witness:
  "destroy (Some sample_request) = Inr ()"
  by (rule destructor_is_safe [OF sample_new rtranclp.rtrancl_refl])

theorem destructor_of_unopened_faults_witness:
  "destroy (Some (new_impl :: unit impl)) = Inl NullDeref \<and>
   and_then (open_request sample_env ''GET'' ''ftp:x'' False (Some (new_impl :: unit impl))) destroy = Inl NullDeref"
  by (rule destructor_of_unopened_faults [OF sample_uri(2)])

theorem moved_request_faults_witness:
  "open_ready sample_env (snd (move_from (Some sample_request))) = Inl NullDeref"
  by (rule moved_request_faults [OF sample_new])

lemma sample_reopen:
  "open_request sample_env ''get'' ''https://a-b.org:8443/x?k=v#top'' False (Some sample_request) =
     Inr (Some (sample_request\<lparr>readyState := ready_code Opened\<rparr>))"
proof -
  have "to_upper ''get'' = ''GET''"
    by code_simp
  then show ?thesis
    using sample_uri(1)
    by (simp add: open_request_def prepare_def Let_def set_mode_def sample_request_def sample_elements_def
        new_impl_def open_ready_def xhr_setup_def setupTimer_def ready_code_def new_session_def)
qed

theorem basic_auth_field_witness:
  "\<exists>y. open_basic sample_env ''get'' ''https://a-b.org:8443/x?k=v#top'' False ''Aladdin'' ''open sesame''
       (Some sample_request) = Inr (Some y) \<and>
     field_values ''Authorization'' (xheader y) =
       [\<lparr>hv_value = ''Basic QWxhZGRpbjpvcGVuIHNlc2FtZQ=='', sensitive = False\<rparr>]"
proof -
  have "base64_spec (bytes (''Aladdin'' @ '':'' @ ''open sesame'')) = ''QWxhZGRpbjpvcGVuIHNlc2FtZQ==''"
    by code_simp
  then show ?thesis
    using basic_auth_field [OF sample_reopen, of "''Aladdin''" "''open sesame''"]
    by (auto simp: sample_request_def new_impl_def fields_sorted_def field_values_def)
qed

theorem reopened_request_keeps_its_host_witness:
  "\<exists>y. open_request sample_env ''post'' ''https://a-b.org:8443/x?k=v#top'' True
       (Some (sample_request\<lparr>endpoint := NetService ''first.org'' ''443''\<rparr>)) = Inr (Some y) \<and>
     endpoint y = endpoint (sample_request\<lparr>endpoint := NetService ''first.org'' ''443''\<rparr>) \<and>
     fetch_url y = full_url sample_elements \<and> xmethod y = to_upper ''post''"
  by (rule reopened_request_keeps_its_host [OF _ sample_uri(1)])
     (simp add: attached_def sample_request_def new_impl_def)

definition waiting_session :: "(byte list \<times> byte list) session" where
  "waiting_session = (new_session [])
     \<lparr>on_state := True, stopped := False, on_ready := ReadyThen True, streams := [(1, new_stream 1 None)]\<rparr>"

definition waiting_request :: "(byte list \<times> byte list) impl" where
  "waiting_request = sample_request\<lparr>xsession := Some waiting_session\<rparr>"

theorem response_is_kept_witness:
  "\<exists>y t v. on_session' (onStreamClose 1) waiting_request = Inr y \<and>
     xresponse y = Some (rp (new_stream 1 None)) \<and> readyState y = ready_code Done \<and> xsession y = Some t \<and>
     findStream 1 t = None \<and> stopped t = True \<and> service y = Some v \<and>
     svc_stopped v = (True \<or> svc_stopped (the (service waiting_request)))"
proof (rule response_is_kept [where s = waiting_session])
  show "attached waiting_request"
    by (simp add: waiting_request_def sample_request_def new_impl_def attached_def)
qed (simp_all add: waiting_request_def waiting_session_def new_session_def findStream_def table_find_def)

end
