(* ===== verification/Session_Trace.thy ===== *)
theory Session_Trace
  imports Session_Run
begin

text \<open>
  What nghttp2 reports while a handler of the session runs, as a list of events, and how such a list takes a
  session from one state to the next. Reading reports the events of the received bytes and then, like the
  handlers of a write and of the ping timer, those of the write that follows.
\<close>

section \<open>What is reported\<close>

text \<open>The events of the loop over \<open>mem_send\<close>, which starts with \<open>k\<close> bytes in the buffer.\<close>

function fill_reports :: "'ng platform \<Rightarrow> 'ng \<Rightarrow> nat \<Rightarrow> ng_event list" where
  "fill_reports p g k =
     (case mem_send p g of (g', es, res) \<Rightarrow>
        es @
        (case res of
           SendNoMem \<Rightarrow> []
         | SendChunk d \<Rightarrow> if d = [] \<or> k + length d > wb_size then [] else fill_reports p g' (k + length d)))"
  by pat_completeness auto

termination
  by (relation "measure (\<lambda>(p, g, k). wb_size - k)") (auto simp: neq_Nil_conv)

declare fill_reports.simps [simp del]

definition write_reports :: "'ng platform \<Rightarrow> 'ng session \<Rightarrow> ng_event list" where
  "write_reports p s =
     (if stopped s \<or> writing s then []
      else case ng s of None \<Rightarrow> [] | Some g \<Rightarrow> fill_reports p g (length (backlog s)))"

definition done_reports :: "'ng platform \<Rightarrow> bool \<Rightarrow> 'ng session \<Rightarrow> ng_event list" where
  "done_reports p failed s =
     (if failed \<or> (case table_find 0 (streams s) of None \<Rightarrow> False | Some x \<Rightarrow> st x = Closed) then []
      else write_reports p (s\<lparr>wb := [], writing := False\<rparr>))"

definition ping_reports :: "'ng platform \<Rightarrow> bool \<Rightarrow> 'ng session \<Rightarrow> ng_event list" where
  "ping_reports p aborted s = (case submitPing p aborted s of Inl _ \<Rightarrow> [] | Inr t \<Rightarrow> write_reports p t)"

text \<open>The session after nghttp2 has taken the bytes in, before anything is written.\<close>

definition taken_in :: "'ng platform \<Rightarrow> 'ng \<Rightarrow> ng_event list \<Rightarrow> 'ng session \<Rightarrow> 'ng session" where
  "taken_in p g es s = (handle_all (find_raw p) es (s\<lparr>insideCb := True, ng := Some g\<rparr>))\<lparr>insideCb := False\<rparr>"

definition read_reports :: "'ng platform \<Rightarrow> bool \<Rightarrow> byte list \<Rightarrow> 'ng session \<Rightarrow> ng_event list" where
  "read_reports p failed buf s =
     (if buf = [] \<or> failed then []
      else case ng s of
        None \<Rightarrow> []
      | Some g \<Rightarrow>
          (case mem_recv p g buf of (g', es, rv) \<Rightarrow>
             es @ (if rv \<noteq> int (length buf) then [] else write_reports p (taken_in p g' es s))))"

text \<open>Frames that are sent and nothing else.\<close>

definition only_sends :: "ng_event list \<Rightarrow> bool" where
  "only_sends es \<longleftrightarrow> list_all (\<lambda>e. case e of BeforeSend f \<Rightarrow> True | _ \<Rightarrow> False) es"

lemma only_sends_simps [simp]:
  "only_sends []" "only_sends (e # es) \<longleftrightarrow> (\<exists>f. e = BeforeSend f) \<and> only_sends es"
  "only_sends (es @ fs) \<longleftrightarrow> only_sends es \<and> only_sends fs"
  unfolding only_sends_def by (cases e; simp)+

lemma fill_reports_none: "(\<forall>g. fst (snd (mem_send p g)) = []) \<Longrightarrow> fill_reports p g k = []"
proof (induction p g k rule: fill_reports.induct)
  case (1 p g k)
  obtain g' r where send: "mem_send p g = (g', [], r)"
    using 1(2) by (metis prod.collapse)
  show ?case
    using 1(1) [OF send [symmetric] refl] 1(2)
    by (cases r) (simp_all add: fill_reports.simps [of p g k] send)
qed

section \<open>What the reports do\<close>

text \<open>Two states that differ in nothing a callback reads or changes.\<close>

definition alike :: "'ng session \<Rightarrow> 'ng session \<Rightarrow> bool" where
  "alike s t \<longleftrightarrow> streams t = streams s \<and> stopped t = stopped s \<and> mime t = mime s \<and> on_ready t = on_ready s \<and>
     on_state t = on_state s \<and> log t = log s"

lemma alike_refl [simp]: "alike s s"
  by (simp add: alike_def)

lemma alike_trans: "alike s t \<Longrightarrow> alike t u \<Longrightarrow> alike s u"
  by (simp add: alike_def)

lemma alike_frame [simp]:
  "alike s (t\<lparr>ng := g\<rparr>) = alike s t" "alike s (t\<lparr>wb := d\<rparr>) = alike s t"
  "alike s (t\<lparr>data_pending := q\<rparr>) = alike s t" "alike s (t\<lparr>insideCb := b\<rparr>) = alike s t"
  "alike s (t\<lparr>writing := b\<rparr>) = alike s t" "alike s (t\<lparr>ops := as\<rparr>) = alike s t"
  "alike s (t\<lparr>ping_started := b\<rparr>) = alike s t" "alike s (start_op a t) = alike s t"
  "alike s (startPing t) = alike s t" "alike s (do_read t) = alike s t"
  by (simp_all add: alike_def start_op_def startPing_def do_read_def)

text \<open>
  \<open>evolves fr es s t\<close>: the events \<open>es\<close> are handled one after the other on the way from \<open>s\<close> to \<open>t\<close>; between
  them the session may be stopped, and its fields for input and output may change.
\<close>

inductive evolves ::
  "('ng option \<Rightarrow> 32 word \<Rightarrow> nat option) \<Rightarrow> ng_event list \<Rightarrow> 'ng session \<Rightarrow> 'ng session \<Rightarrow> bool"
  for fr :: "'ng option \<Rightarrow> 32 word \<Rightarrow> nat option" where
  evolves_start: "alike s t \<Longrightarrow> evolves fr [] s t"
| evolves_event: "evolves fr es s t \<Longrightarrow> alike (handle fr e t) u \<Longrightarrow> evolves fr (es @ [e]) s u"
| evolves_stop: "evolves fr es s t \<Longrightarrow> alike (stop t) u \<Longrightarrow> evolves fr es s u"

lemma evolves_alike: "evolves fr es s t \<Longrightarrow> alike t u \<Longrightarrow> evolves fr es s u"
  by (induction rule: evolves.induct) (auto intro: evolves.intros alike_trans)

lemma evolves_trans:
  assumes "evolves fr fs t u" and "evolves fr es s t"
  shows "evolves fr (es @ fs) s u"
  using assms(1,1,2)
proof (induction fs t u rule: evolves.induct)
  case (evolves_start t u)
  then show ?case by (auto intro: evolves_alike)
next
  case (evolves_event fs t v e u)
  then show ?case
    using evolves.evolves_event [of fr "es @ fs" s v e u] by simp
next
  case (evolves_stop fs t v u)
  then show ?case
    by (auto intro: evolves.evolves_stop)
qed

lemma evolves_handle_all: "evolves fr es s (handle_all fr es s)"
proof (induction es rule: rev_induct)
  case (snoc e es)
  then show ?case
    by (auto simp: handle_all_def intro: evolves_event)
qed (simp add: handle_all_def evolves_start)

lemma fill_evolves: "fill p g s = (t, a) \<Longrightarrow> evolves (find_raw p) (fill_reports p g (length (wb s))) s t"
proof (induction p g s arbitrary: t rule: fill.induct)
  case (1 p g s)
  obtain g' es r where send: "mem_send p g = (g', es, r)"
    by (metis prod.exhaust)
  define u where "u = handle_all (find_raw p) es (s\<lparr>ng := Some g'\<rparr>)"
  have u: "evolves (find_raw p) es s u"
    using evolves_trans [OF evolves_handle_all evolves_start, of s "s\<lparr>ng := Some g'\<rparr>"] by (simp add: u_def)
  have "wb u = wb s"
    by (simp add: u_def)
  note reports = fill_reports.simps [of p g "length (wb s)"]
  show ?case
  proof (cases r)
    case SendNoMem
    then have "t = stop u"
      using "1.prems" by (simp add: fill.simps [of p g s] send u_def Let_def)
    then show ?thesis
      using evolves_stop [OF u] by (simp add: reports send SendNoMem)
  next
    case (SendChunk d)
    have step: "fill p g s =
        (if d = [] then (u, False)
         else if length (wb u) + length d > wb_size then (u\<lparr>data_pending := Some d\<rparr>, False)
         else fill p g' (u\<lparr>wb := wb u @ d\<rparr>))"
      by (simp add: fill.simps [of p g s] send SendChunk u_def Let_def)
    show ?thesis
    proof (cases "d = [] \<or> length (wb s) + length d > wb_size")
      case True
      then have "t = u \<or> t = u\<lparr>data_pending := Some d\<rparr>"
        using "1.prems" step \<open>wb u = wb s\<close> by (auto split: if_splits)
      then show ?thesis
        using True evolves_alike [OF u, of t] by (auto simp: reports send SendChunk)
    next
      case False
      then have "evolves (find_raw p) (fill_reports p g' (length (wb (u\<lparr>wb := wb u @ d\<rparr>)))) (u\<lparr>wb := wb u @ d\<rparr>) t"
        using "1.IH" [OF send [symmetric] refl u_def SendChunk] "1.prems" step \<open>wb u = wb s\<close> by simp
      then show ?thesis
        using evolves_trans [OF _ evolves_alike [OF u, of "u\<lparr>wb := wb u @ d\<rparr>"]] False \<open>wb u = wb s\<close>
        by (simp add: reports send SendChunk)
    qed
  qed
qed

lemma fill_bounded: "fill p g s = (t, a) \<Longrightarrow> length (wb s) \<le> wb_size \<Longrightarrow> length (wb t) \<le> wb_size"
proof (induction p g s arbitrary: t rule: fill.induct)
  case (1 p g s)
  obtain g' es r where send: "mem_send p g = (g', es, r)"
    by (metis prod.exhaust)
  show ?case
  proof (cases r)
    case SendNoMem
    then show ?thesis
      using "1.prems" by (auto simp: fill.simps [of p g s] send Let_def)
  next
    case (SendChunk d)
    then show ?thesis
      using "1.IH" [OF send [symmetric] refl refl SendChunk] "1.prems"
      by (auto simp: fill.simps [of p g s] send Let_def split: if_splits)
  qed
qed

lemma do_write_evolves:
  assumes "do_write p s = Inr t"
  shows "evolves (find_raw p) (write_reports p s) s t"
proof (cases "stopped s \<or> writing s")
  case True
  then show ?thesis
    using assms by (cases "stopped s") (simp_all add: do_write_def write_reports_def evolves_start)
next
  case False
  then obtain u where u: "copy_pending s = Inr u" and step: "(if insideCb u then Inl SelfDeadlock
        else case ng u of None \<Rightarrow> Inl NullDeref
        | Some g \<Rightarrow> (case locked (fill p g) u of (s, aborted) \<Rightarrow>
            if aborted then Inr s else if wb s = [] then Inr s
            else Inr (writeSocket (s\<lparr>writing := True\<rparr>)))) = Inr t"
    using assms by (auto simp: do_write_def and_then_Inr_iff simp del: writeSocket_def)
  then obtain g where g: "ng u = Some g"
    by (cases "ng u") (simp_all split: if_splits)
  have eq: "alike s u" "ng s = Some g" "wb u = backlog s"
    using u g by (auto simp: copy_pending_def backlog_def pending_bytes_def split: option.splits if_splits)
  obtain v a where v: "fill p g (u\<lparr>insideCb := True\<rparr>) = (v, a)"
    by (metis prod.exhaust)
  have "evolves (find_raw p) ([] @ fill_reports p g (length (backlog s))) s v"
    using fill_evolves [OF v] eq by (intro evolves_trans [OF _ evolves_start [of _ "u\<lparr>insideCb := True\<rparr>"]]) simp_all
  moreover have "alike v t"
    using step g v by (auto simp: locked_def split: if_splits)
  ultimately show ?thesis
    using False eq(2) by (simp add: write_reports_def evolves_alike)
qed

lemma write_done_evolves:
  assumes "write_done p failed n s = Inr t"
  shows "evolves (find_raw p) (done_reports p failed s) s t"
proof (cases "failed \<or> (case table_find 0 (streams s) of None \<Rightarrow> False | Some x \<Rightarrow> st x = Closed)")
  case True
  then have "t = stop s"
    using assms by (auto simp: write_done_def table_find_def split: option.splits if_splits)
  then show ?thesis
    using True evolves_stop [OF evolves_start, of s s "stop s"] by (auto simp: done_reports_def)
next
  case False
  then have "do_write p (s\<lparr>wb := [], writing := False\<rparr>) = Inr t"
    using assms by (auto simp: write_done_def split: if_splits)
  from evolves_trans [OF do_write_evolves [OF this] evolves_start] show ?thesis
    using False by (simp add: done_reports_def)
qed

lemma ping_fired_evolves:
  assumes "ping_fired p aborted s = Inr t"
  shows "evolves (find_raw p) (ping_reports p aborted s) s t"
proof -
  obtain u v where u: "submitPing p aborted s = Inr u" "do_write p u = Inr v" "t = startPing v"
    using assms by (auto simp: ping_fired_def and_then_Inr_iff)
  moreover have "alike s u"
    using u(1) by (auto simp: submitPing_def split: if_splits option.splits)
  ultimately show ?thesis
    using evolves_alike [OF evolves_trans [OF do_write_evolves [OF u(2)] evolves_start], of s t]
    by (simp add: ping_reports_def)
qed

lemma read_done_evolves:
  assumes "read_done p failed buf s = Inr t"
  shows "evolves (find_raw p) (read_reports p failed buf s) s t"
proof (cases "buf = [] \<or> failed")
  case True
  then have "t = s \<or> t = stop s"
    using assms by (auto simp: read_done_def split: if_splits)
  then show ?thesis
    using True evolves_start [of s s] evolves_stop [OF evolves_start, of s s "stop s"]
    by (auto simp: read_reports_def)
next
  case False
  then obtain g g' es rv where recv: "mem_recv p g buf = (g', es, rv)" "\<not> insideCb s" "ng s = Some g"
    using assms by (cases "ng s") (auto simp: read_done_def split: if_splits prod.splits)
  let ?u = "taken_in p g' es s"
  have u: "evolves (find_raw p) ([] @ es) s ?u"
    unfolding taken_in_def
    by (rule evolves_alike [OF evolves_trans [OF evolves_handle_all evolves_start
          [of s "s\<lparr>insideCb := True, ng := Some g'\<rparr>"]]]) simp_all
  have "read_done p False buf s = (if rv \<noteq> int (length buf) then Inr (stop ?u)
     else and_then (do_write p ?u) (\<lambda>s. and_then (shouldStop p s) (\<lambda>halt.
       Inr (if halt then stop s else do_read s))))"
    using False recv by (simp add: read_done_def locked_def taken_in_def Let_def)
  with assms False have run: "(if rv \<noteq> int (length buf) then Inr (stop ?u)
     else and_then (do_write p ?u) (\<lambda>s. and_then (shouldStop p s) (\<lambda>halt.
       Inr (if halt then stop s else do_read s)))) = Inr t"
    by simp
  show ?thesis
  proof (cases "rv = int (length buf)")
    case False
    then show ?thesis
      using run u evolves_stop [OF u, of "stop ?u"] recv \<open>\<not> (buf = [] \<or> failed)\<close> by (simp add: read_reports_def)
  next
    case True
    then obtain v halt where v: "do_write p ?u = Inr v" "t = (if halt then stop v else do_read v)"
      using run by (auto simp: and_then_Inr_iff)
    have "evolves (find_raw p) (es @ write_reports p ?u) s v"
      using evolves_trans [OF do_write_evolves [OF v(1)] u] by simp
    from evolves_stop [OF this, of t] evolves_alike [OF this, of t] show ?thesis
      using v(2) True False recv by (auto simp: read_reports_def split: if_splits)
  qed
qed

section \<open>Taking a list of reports apart\<close>

lemma evolves_split:
  assumes "evolves fr fs s t" and "fs = es @ e # gs"
  shows "\<exists>u v. evolves fr es s u \<and> v = handle fr e u \<and> evolves fr gs v t"
  using assms
proof (induction fs s t arbitrary: gs rule: evolves.induct)
  case (evolves_event fs s t e' u)
  show ?case
  proof (cases gs rule: rev_cases)
    case Nil
    then show ?thesis
      using evolves_event by (auto intro: evolves_start)
  next
    case (snoc hs h)
    then obtain v w where "evolves fr es s v" "w = handle fr e v" "evolves fr hs w t"
      using evolves_event.IH [of hs] evolves_event.prems by auto
    then show ?thesis
      using evolves_event.hyps(2) evolves_event.prems snoc evolves.evolves_event [of fr hs w t e' u] by auto
  qed
next
  case (evolves_stop fs s t u)
  then show ?case
    using evolves.evolves_stop by metis
qed simp

lemma evolves_settings:
  "evolves fr es s t \<Longrightarrow> mime t = mime s \<and> on_ready t = on_ready s \<and> on_state t = on_state s \<and>
     (stopped s \<longrightarrow> stopped t)"
  by (induction rule: evolves.induct) (auto simp: alike_def)

end
