(* ===== verification/Xhr_Request.thy ===== *)
theory Xhr_Request
  imports Xhr_Run Session_Trace
begin

text \<open>
  A request, GET or POST, synchronous or asynchronous, from its construction to the moment nghttp2 has it:
  the connection is made to the host of the URL, and because the write of the settings is still under way
  when the request is submitted, the mutex of the session is not taken twice. When the connection fails, both
  jobs end without having done anything.
\<close>

section \<open>Connecting\<close>

text \<open>Before anything is received no stream holds any part of an answer.\<close>

definition blank :: "'ng session \<Rightarrow> bool" where
  "blank s \<longleftrightarrow> (\<forall>x\<in>set (streams s). rp (snd x) = new_response)"

lemma blank_find: "blank s \<Longrightarrow> findStream i s = Some x \<Longrightarrow> rp x = new_response"
  using map_of_SomeD [of "streams s"] by (fastforce simp: blank_def findStream_def table_find_def)

lemma blank_add: "blank s \<Longrightarrow> rp x = new_response \<Longrightarrow> blank (fst (addStream x s))"
  by (auto simp: blank_def addStream_def try_emplace_def split: prod.splits)

lemma blank_upd: "blank s \<Longrightarrow> (\<And>x. rp (f x) = rp x) \<Longrightarrow> blank (updStream i f s)"
  by (auto simp: blank_def updStream_def table_update_def)

lemma blank_frame [simp]:
  "blank (s\<lparr>ng := g\<rparr>) = blank s" "blank (s\<lparr>wb := d\<rparr>) = blank s" "blank (s\<lparr>data_pending := q\<rparr>) = blank s"
  "blank (s\<lparr>insideCb := b\<rparr>) = blank s" "blank (s\<lparr>stopped := b\<rparr>) = blank s" "blank (s\<lparr>writing := b\<rparr>) = blank s"
  "blank (s\<lparr>parser := u\<rparr>) = blank s" "blank (start_op a s) = blank s" "blank (startPing s) = blank s"
  "blank (s\<lparr>on_ready := c\<rparr>) = blank s" "blank (s\<lparr>ops := as\<rparr>) = blank s"
  "blank (s\<lparr>ping_started := b\<rparr>) = blank s"
  by (simp_all add: blank_def start_op_def startPing_def)

lemma outgoing_response [simp]: "rp (processOutgoingFrame f x) = rp x"
  by (simp add: processOutgoingFrame_def set_state_def)

definition never_nomem :: "'ng platform \<Rightarrow> bool" where
  "never_nomem p \<longleftrightarrow> (\<forall>g. snd (snd (mem_send p g)) \<noteq> SendNoMem)"

definition quiet :: "'ng session \<Rightarrow> 'ng session \<Rightarrow> bool" where
  "quiet s t \<longleftrightarrow> stopped t = stopped s \<and> log t = log s \<and> on_start t = on_start s \<and> insideCb t = insideCb s \<and>
     writing t = writing s \<and> mime t = mime s \<and> on_ready t = on_ready s \<and> on_state t = on_state s \<and>
     (blank s \<longrightarrow> blank t)"

lemma quiet_trans: "quiet s t \<Longrightarrow> quiet t u \<Longrightarrow> quiet s u"
  by (simp add: quiet_def)

lemma quiet_frame [simp]:
  "quiet (s\<lparr>ng := g\<rparr>) t = quiet s t" "quiet (s\<lparr>wb := d\<rparr>) t = quiet s t" "quiet s (t\<lparr>wb := d\<rparr>) = quiet s t"
  "quiet s (t\<lparr>data_pending := q\<rparr>) = quiet s t"
  by (simp_all add: quiet_def)

lemma quiet_sends: "only_sends es \<Longrightarrow> quiet s (handle_all fr es s)"
proof -
  have one: "quiet s (beforeFrameSend fr f s)" for f and s :: "'a session"
  proof (cases "findStream (fstream f) s")
    case None
    have "blank s \<Longrightarrow> blank (beforeFrameSend fr f s)"
      using None by (simp add: beforeFrameSend_def blank_add createPushStream_def new_stream_def set_state_def)
    then show ?thesis
      using None by (simp add: quiet_def beforeFrameSend_def addStream_def split: prod.split)
  next
    case (Some x)
    have "blank s \<Longrightarrow> blank (beforeFrameSend fr f s)"
      using Some by (simp add: beforeFrameSend_def blank_upd)
    then show ?thesis
      using Some by (simp add: quiet_def beforeFrameSend_def updStream_def)
  qed
  show "only_sends es \<Longrightarrow> quiet s (handle_all fr es s)"
    unfolding handle_all_def
  proof (induction es arbitrary: s)
    case (Cons e es)
    then obtain f where e: "e = BeforeSend f" "only_sends es"
      by auto
    show ?case
      using quiet_trans [OF one [of s f] Cons.IH [OF e(2)]] e(1) by simp
  qed (simp add: quiet_def)
qed

lemma fill_quiet:
  "never_nomem p \<Longrightarrow> only_sends (fill_reports p g (length (wb s))) \<Longrightarrow> fill p g s = (s', aborted) \<Longrightarrow>
     \<not> aborted \<and> quiet s s' \<and> ng s' \<noteq> None \<and> (\<exists>e. wb s' = wb s @ e)"
proof (induction p g s arbitrary: s' rule: fill.induct)
  case (1 p g s)
  obtain g' fs r where send: "mem_send p g = (g', fs, r)"
    by (metis prod.exhaust)
  then obtain d where d: "r = SendChunk d"
    using 1(2) by (cases r) (metis never_nomem_def snd_conv, blast)
  note reports = fill_reports.simps [of p g "length (wb s)", unfolded send d, simplified]
  define t where "t = handle_all (find_raw p) fs (s\<lparr>ng := Some g'\<rparr>)"
  have t: "quiet s t" "ng t = Some g'" "wb t = wb s"
    using quiet_sends [of fs "s\<lparr>ng := Some g'\<rparr>" "find_raw p"] 1(3) by (simp_all add: t_def reports)
  have step: "fill p g s =
      (if d = [] then (t, False)
       else if length (wb t) + length d > wb_size then (t\<lparr>data_pending := Some d\<rparr>, False)
       else fill p g' (t\<lparr>wb := wb t @ d\<rparr>))"
    by (simp add: fill.simps [of p g s] send d t_def Let_def)
  show ?case
  proof (cases "d = [] \<or> length (wb t) + length d > wb_size")
    case True
    then show ?thesis
      using 1(4) t step by (auto split: if_splits)
  next
    case False
    then have "fill p g' (t\<lparr>wb := wb t @ d\<rparr>) = (s', aborted)" "only_sends (fill_reports p g' (length (wb s) + length d))"
      using 1(3,4) step t(3) by (simp_all add: reports)
    then have "\<not> aborted \<and> quiet (t\<lparr>wb := wb t @ d\<rparr>) s' \<and> ng s' \<noteq> None \<and> (\<exists>e. wb s' = (wb t @ d) @ e)"
      using 1(1) [OF send [symmetric] refl t_def d] False 1(2) t(3) by simp
    then show ?thesis
      using t quiet_trans [of s t s'] by auto
  qed
qed

text \<open>
  The session object that has been given the settings, and what it then hands out: some bytes, and while no
  request has been made, no reports but of frames that are sent.
\<close>

definition greeted :: "'ng platform \<Rightarrow> 'ng \<Rightarrow> 'ng" where
  "greeted p g = fst (sendClientConnectionHeader p g)"

definition sends_settings :: "'ng platform \<Rightarrow> 'ng \<Rightarrow> bool" where
  "sends_settings p g \<longleftrightarrow>
     (case snd (snd (mem_send p (greeted p g))) of
        SendNoMem \<Rightarrow> False
      | SendChunk d \<Rightarrow> d \<noteq> [] \<and> length d \<le> wb_size) \<and>
     only_sends (fill_reports p (greeted p g) 0)"

text \<open>
  A connected session that nothing was received for yet; \<open>halts\<close>: its ready callback stops it, as that of a
  synchronous request does.
\<close>

definition awaiting :: "bool \<Rightarrow> 'ng session \<Rightarrow> bool" where
  "awaiting halts s \<longleftrightarrow> \<not> stopped s \<and> writing s \<and> \<not> insideCb s \<and> ng s \<noteq> None \<and> blank s \<and>
     on_ready s = ReadyThen halts \<and> on_state s \<and> mime s = [] \<and> ReadOp \<in> set (ops s)"

definition prepared :: "bool \<Rightarrow> 'ng session \<Rightarrow> bool" where
  "prepared halts s \<longleftrightarrow> fresh s \<and> stopped s \<and> blank s \<and> log s = [] \<and> \<not> on_start s \<and>
     on_ready s = ReadyThen halts \<and> on_state s \<and> mime s = []"

lemma connect_writes:
  assumes "client_new p = Some g0" and "never_nomem p" and "sends_settings p g0" and "fresh s"
  shows "\<exists>t. onSocketConnected p s = Inr t \<and> \<not> stopped t \<and> writing t \<and> \<not> insideCb t \<and> ng t \<noteq> None \<and>
    log t = log s \<and> on_start t = on_start s \<and> mime t = mime s \<and> on_ready t = on_ready s \<and>
    on_state t = on_state s \<and> (blank s \<longrightarrow> blank t) \<and> ReadOp \<in> set (ops t)"
proof -
  let ?s = "s\<lparr>stopped := False, ng := Some (greeted p g0)\<rparr>"
  obtain g1 fs r where "mem_send p (greeted p g0) = (g1, fs, r)"
    by (metis prod.exhaust)
  then obtain d where send: "mem_send p (greeted p g0) = (g1, fs, SendChunk d)" "d \<noteq> []" "length d \<le> wb_size"
    using assms(3) by (cases r) (simp_all add: sends_settings_def)
  obtain u a where run: "fill p (greeted p g0) (?s\<lparr>insideCb := True\<rparr>) = (u, a)"
    by (metis prod.exhaust)
  have reports: "only_sends (fs @ fill_reports p g1 (length d))"
    using assms(3) send(2,3) unfolding sends_settings_def fill_reports.simps [of p "greeted p g0"] send(1) by simp
  have empty: "wb (?s\<lparr>insideCb := True\<rparr>) = []"
    using assms(4) by (simp add: fresh_def)
  have u: "\<not> a" "quiet (?s\<lparr>insideCb := True\<rparr>) u" "ng u \<noteq> None"
    using fill_quiet [OF assms(2) _ run] assms(3) unfolding empty sends_settings_def by simp_all
  let ?b = "handle_all (find_raw p) fs (?s\<lparr>insideCb := True, ng := Some g1\<rparr>)"
  have "fill p g1 (?b\<lparr>wb := d\<rparr>) = (u, a)"
    using run send assms(4) by (subst (asm) fill.simps) (simp add: fresh_def Let_def)
  from fill_quiet [OF assms(2) _ this] have "wb u \<noteq> []"
    using send(2) reports by auto
  moreover have "length (wb u) \<le> wb_size"
    using fill_bounded [OF run] empty by simp
  ultimately have "do_write p ?s = Inr (start_op (WriteOp (wb u)) (u\<lparr>insideCb := False, writing := True\<rparr>))"
    using u(1) run assms(4)
    by (simp add: do_write_def copy_pending_def fresh_def locked_def min_absorb1)
  then show ?thesis
    using u assms(1,4)
    by (simp add: onSocketConnected_def setupSession_def fresh_def greeted_def [symmetric] do_read_def
        start_op_def startPing_def quiet_def)
qed

section \<open>The URL that is submitted\<close>

text \<open>The URL with its port made explicit is well-formed and is submitted with the same fields.\<close>

definition explicit_port :: "url_parts \<Rightarrow> url_parts" where
  "explicit_port q = q\<lparr>port_text := Some (used_port q)\<rparr>"

lemma explicit_port_ok:
  assumes "url_parts_ok q" and "length (render_url q) + 4 < 65536"
  shows "url_parts_ok (explicit_port q)" and "request_fields p m (explicit_port q) hdr = request_fields p m q hdr"
proof -
  have "length (used_port q) \<le> 3" if "port_text q = None"
    using that by (simp add: used_port_def)
  then have "length (render_url (explicit_port q)) < 65536"
    using assms(2) by (cases "port_text q") (auto simp: render_url_def explicit_port_def used_port_def)
  moreover have "decimal ''443'' = 443" "decimal ''80'' = 80"
    by (simp_all add: decimal_def dec_digit_def)
  ultimately show "url_parts_ok (explicit_port q)"
    using assms(1) by (cases "port_text q")
      (auto simp: url_parts_ok_def explicit_port_def used_port_def is_dec_def)
  show "request_fields p m (explicit_port q) hdr = request_fields p m q hdr"
    by (simp add: request_fields_def explicit_port_def target_def)
qed

section \<open>The calls of the user\<close>

fun set_headers :: "(string \<times> string) list \<Rightarrow> 'ng xhr \<Rightarrow> fault + 'ng xhr" where
  "set_headers [] d = Inr d"
| "set_headers ((k, v) # hs) d = and_then (setRequestHeader k v d) (set_headers hs)"

definition fields_of :: "(string \<times> string) list \<Rightarrow> fields \<Rightarrow> fields" where
  "fields_of hs fs = fold (\<lambda>(k, v). emplace k \<lparr>hv_value = v, sensitive = False\<rparr>) hs fs"

lemma set_headers_fields:
  "set_headers hs (Some x) = Inr (Some (x\<lparr>xheader := fields_of hs (xheader x)\<rparr>))"
proof (induction hs arbitrary: x)
  case (Cons a hs)
  then show ?case
    by (cases a) (simp add: setRequestHeader_def with_impl_def fields_of_def)
qed (simp add: fields_of_def)

text \<open>
  Construct, set the time limit \<open>lim\<close> (its milliseconds, 0 for none, and whether there is a callback) and the headers, open, send, and let the io service run the two jobs,
  inline or on the thread that was started for it; a timeout has not passed before both have run. Without a
  body the callback is given to \<open>send\<close>; with one it is set first.
\<close>

definition send_call :: "string option \<Rightarrow> 'ng xhr \<Rightarrow> fault + 'ng xhr \<times> run_mode" where
  "send_call b d =
     (case b of
        None \<Rightarrow> send_then d
      | Some t \<Rightarrow> and_then (xhr_setOnReadyCallback d) (\<lambda>(d, ok). send_body t d))"

definition user_request ::
  "client_env \<Rightarrow> 'ng platform \<Rightarrow> bool \<Rightarrow> connect_outcome \<Rightarrow> bool \<Rightarrow> 64 word \<times> bool \<Rightarrow> string \<Rightarrow> string \<Rightarrow>
     (string \<times> string) list \<Rightarrow> string option \<Rightarrow> fault + 'ng impl option" where
  "user_request env p rf oc async lim m url hs b =
     and_then (new_xhr env m url async) (\<lambda>d.
     and_then (set_timeout (fst lim) d) (\<lambda>d.
     and_then (setOnTimeoutCallback (snd lim) d) (\<lambda>d.
     and_then (set_headers hs d) (\<lambda>d.
     and_then (open_ready env d) (\<lambda>(d, ok).
     and_then (send_call b d) (\<lambda>(d, mode).
       case (d, mode) of
         (Some x, RunInline) \<Rightarrow> and_then (run_jobs p rf oc 2 x) (\<lambda>x. Inr (Some x))
       | (Some x, RunAsync) \<Rightarrow> and_then (run_jobs p rf oc 2 x) (\<lambda>x. Inr (Some x))
       | _ \<Rightarrow> Inr d))))))"

text \<open>Only a GET without a body is fetched without a data provider.\<close>

definition provides :: "string \<Rightarrow> string option \<Rightarrow> bool" where
  "provides m b \<longleftrightarrow> m \<noteq> ''GET'' \<or> b \<noteq> None"

definition job_for :: "string \<Rightarrow> string option \<Rightarrow> job" where
  "job_for m b = (if provides m b then FetchBodyJob else FetchJob)"

definition body_text :: "string option \<Rightarrow> string" where
  "body_text b = (case b of None \<Rightarrow> [] | Some t \<Rightarrow> t)"

lemma sendable_methods:
  assumes "m \<in> {''GET'', ''POST''}"
  shows "methodFromString m = (if m = ''GET'' then Get else Post)" "stringFromEnum (methodFromString m) = m"
proof -
  have "methodFromString ''GET'' = Get" "methodFromString ''POST'' = Post" "stringFromEnum Get = ''GET''"
      "stringFromEnum Post = ''POST''"
    by code_simp+
  then show "methodFromString m = (if m = ''GET'' then Get else Post)" "stringFromEnum (methodFromString m) = m"
    using assms by auto
qed

text \<open>The request just before its jobs run.\<close>

lemma user_request_start:
  assumes "proccessUri (engine env) url = Some el" and "garbage env = []" and "to_upper m \<in> {''GET'', ''POST''}"
  shows "\<exists>x s. user_request env p rf oc async lim m url hs b = and_then (run_jobs p rf oc 2 x) (\<lambda>x. Inr (Some x)) \<and>
    attached x \<and> xsession x = Some s \<and> prepared (\<not> async) s \<and>
    service x = Some \<lparr>svc_stopped = False, jobs = [(ConnectJob, True), (job_for (to_upper m) b, True)]\<rparr> \<and>
    xmethod x = to_upper m \<and> endpoint x = NetService (e_addr el) (e_port el) \<and> fetch_url x = full_url el \<and>
    xheader x = fields_of hs [] \<and> body x = body_text b \<and> xresponse x = None \<and> readyState x = ready_code Opened \<and>
    streams s = [] \<and> timer x = (0 < sint (fst lim)) \<and> timerCallback x = snd lim \<and> timeouts x = 0"
proof -
  let ?m = "to_upper m"
  define s :: "'a session" where "s = (new_session [])\<lparr>on_state := True, on_stop := True\<rparr>"
  define x :: "'a impl" where "x = new_impl\<lparr>contextSsl := Some (fst (configureTlsContext new_tls_context)),
    isAsync := async, addr := e_addr el, xport := e_port el, proto := e_protocol el,
    urn := e_urn el, xmethod := ?m, service := Some \<lparr>svc_stopped = False, jobs = []\<rparr>, xsession := Some s,
    endpoint := NetService (e_addr el) (e_port el)\<rparr>"
  let ?o = "x\<lparr>xtimeout := fst lim, timerCallback := snd lim, xheader := fields_of hs [], timer := 0 < sint (fst lim), readyState := ready_code Opened\<rparr>"
  define y where "y = ?o\<lparr>xsession := Some (s\<lparr>on_ready := ReadyThen (\<not> async)\<rparr>), body := body_text b, future := async,
    service := Some \<lparr>svc_stopped = False, jobs = [(ConnectJob, True), (job_for ?m b, True)]\<rparr>\<rparr>"
  have new: "new_xhr env m url async = Inr (Some x)"
    using assms by (simp add: configureTlsContext_def new_xhr_def prepare_def set_mode_def with_impl_def xhr_setup_def impl_setupSession_def
        initCallbacks_def on_session'_def on_session_def setOnStateChangeCallback_def setOnStopCallback_def
        Let_def x_def s_def new_session_def new_impl_def)
  moreover have "set_timeout (fst lim) (Some x) = Inr (Some (x\<lparr>xtimeout := fst lim\<rparr>))"
    by (simp add: set_timeout_def with_impl_def x_def new_impl_def)
  moreover have "setOnTimeoutCallback (snd lim) (Some (x\<lparr>xtimeout := fst lim\<rparr>)) =
      Inr (Some (x\<lparr>xtimeout := fst lim, timerCallback := snd lim\<rparr>))"
    by (simp add: setOnTimeoutCallback_def with_impl_def)
  moreover have "open_ready env (Some (x\<lparr>xtimeout := fst lim, timerCallback := snd lim, xheader := fields_of hs []\<rparr>)) = Inr (Some ?o, True)"
    by (simp add: open_ready_def xhr_setup_def setupTimer_def x_def s_def new_impl_def ready_code_def)
  moreover have ready: "xhr_setOnReadyCallback (Some ?o) =
      Inr (Some (?o\<lparr>xsession := Some (s\<lparr>on_ready := ReadyThen (\<not> async)\<rparr>)\<rparr>), True)"
    by (simp add: xhr_setOnReadyCallback_def on_session'_def on_session_def setOnReadyCallback_def x_def
        new_impl_def)
  have "send_call b (Some ?o) = Inr (Some y, if async then RunAsync else RunInline)"
  proof (cases b)
    case None
    then show ?thesis
      using ready sendable_methods(1) [OF assms(3)]
      by (auto simp: send_call_def send_then_def send_def sendGet_def sendPost_def choose_mode_def post_def
          x_def y_def new_impl_def job_for_def provides_def body_text_def)
  next
    case (Some t)
    then show ?thesis
      using ready
      by (simp add: send_call_def send_body_def sendPost_def choose_mode_def post_def x_def y_def
          new_impl_def job_for_def provides_def body_text_def)
  qed
  ultimately have "user_request env p rf oc async lim m url hs b = and_then (run_jobs p rf oc 2 y) (\<lambda>x. Inr (Some x))"
    by (simp add: user_request_def set_headers_fields x_def new_impl_def)
  then show ?thesis
    by (intro exI [of _ y] exI [of _ "s\<lparr>on_ready := ReadyThen (\<not> async)\<rparr>"])
       (simp add: y_def x_def s_def new_session_def new_impl_def fresh_def fetch_url_def full_url_def
          prepared_def blank_def attached_def)
qed

section \<open>The two jobs\<close>

lemma on_session_still: "xsession x = Some s \<Longrightarrow> f s = Inr (s, a) \<Longrightarrow> on_session f x = Inr (x, a)"
  by (cases x) (simp add: on_session_def)

lemma jobs_without_connection:
  assumes "xsession x = Some s" and "stopped s" and "rf \<or> oc = ConnectFailed \<or> oc = HandshakeFailed"
  shows "run_job p rf oc ConnectJob x = Inr x" and "run_job p rf oc (job_for m b) x = Inr x"
proof -
  have "stop s = s"
    using assms(2) by (simp add: stop_def)
  then have still: "on_session' stop x = Inr x"
    by (simp add: on_session'_def on_session_still [OF assms(1)])
  have "tls_startResolve p rf oc s = Inr (s, False)"
    using assms(2,3) by (rule failed_connection_reported)
  then have "on_session (\<lambda>s. if isStopped s then tls_startResolve p rf oc s else Inr (s, True)) x = Inr (x, False)"
    using assms(2) by (simp add: on_session_still [OF assms(1)])
  then show "run_job p rf oc ConnectJob x = Inr x"
    by (simp add: connect_def)
  have "on_session (tls_submit_body p (xheader x) (fetch_url x) (methodFromString (xmethod x))) x = Inr (x, NoError, 0)"
    using assms(2) by (intro on_session_still [OF assms(1)]) (simp add: tls_submit_body_def submit_def)
  then show "run_job p rf oc (job_for m b) x = Inr x"
    using assms(1,2) still
    by (simp add: job_for_def fetch_def fetchWithBody_def impl_fetch_body_def stop_on_error_def Let_def)
qed

text \<open>What keeps the io service from returning: posted jobs, operations of the session, the wait for the time limit.\<close>

definition work_left :: "'ng impl \<Rightarrow> bool" where
  "work_left x \<longleftrightarrow>
     (\<exists>v. service x = Some v \<and> jobs v \<noteq> []) \<or> (\<exists>s. xsession x = Some s \<and> ops s \<noteq> []) \<or> timer x"

text \<open>
  C8: A request whose connection fails is over, up to its time limit. When the host cannot be resolved, or
  connecting or the TLS handshake fails, both jobs run and nothing is sent or started: the session stays
  stopped, without a session object of nghttp2, a stream or an operation under way. There is no response, the
  ready state is still \<open>Opened\<close>, and nothing was reported. If no time limit was set (none that is positive as a
  signed number), the io service has no work left, so that \<open>send\<close> returns; otherwise its only work is the wait
  for the limit, after which the timeout callback is called, if one is set, and nothing is left: the failure
  itself is never reported.
\<close>

theorem failed_connection_ends_the_request:
  assumes "proccessUri (engine env) url = Some el" and "garbage env = []" and "to_upper m \<in> {''GET'', ''POST''}"
    and "rf \<or> oc = ConnectFailed \<or> oc = HandshakeFailed"
  shows "\<exists>x s. user_request env p rf oc async lim m url hs b = Inr (Some x) \<and>
    service x = Some \<lparr>svc_stopped = False, jobs = []\<rparr> \<and> xresponse x = None \<and> readyState x = ready_code Opened \<and>
    xsession x = Some s \<and> stopped s \<and> ng s = None \<and> streams s = [] \<and> ops s = [] \<and> log s = [] \<and> timeouts x = 0 \<and>
    work_left x = (0 < sint (fst lim)) \<and>
    (\<exists>z. timer_fired False x = Inr (Some z) \<and> \<not> work_left z \<and> \<not> running z \<and> xsession z = Some s \<and>
      xresponse z = None \<and> readyState z = ready_code Opened \<and> timeouts z = (if snd lim then 1 else 0))"
proof -
  let ?j = "job_for (to_upper m) b"
  obtain x s where x: "user_request env p rf oc async lim m url hs b = and_then (run_jobs p rf oc 2 x) (\<lambda>x. Inr (Some x))"
      "attached x" "xsession x = Some s" "prepared (\<not> async) s" "streams s = []"
      "service x = Some \<lparr>svc_stopped = False, jobs = [(ConnectJob, True), (?j, True)]\<rparr>"
      "xresponse x = None" "readyState x = ready_code Opened" "timer x = (0 < sint (fst lim))"
      "timerCallback x = snd lim" "timeouts x = 0"
    using user_request_start [OF assms(1-3), of p rf oc async lim hs b] by blast
  have s: "stopped s" "ng s = None" "ops s = []" "log s = []"
    using x(4) by (simp_all add: prepared_def fresh_def)
  let ?y = "x\<lparr>service := Some \<lparr>svc_stopped = False, jobs = []\<rparr>\<rparr>"
  note jobs = jobs_without_connection [OF _ s(1) assms(4), where p = p]
  have run: "run_jobs p rf oc 2 x = Inr ?y"
    using x(3,6) jobs(1) [of "x\<lparr>service := Some \<lparr>svc_stopped = False, jobs = [(?j, True)]\<rparr>\<rparr>"] jobs(2) [of ?y]
    by (simp add: numeral_2_eq_2 del: run_job.simps)
  have "attached ?y" "xsession ?y = Some s"
    using x(2,3) by (simp_all add: attached_def)
  then have fired: "timer_fired False ?y = Inr (Some ((stop_service ?y)\<lparr>xsession := Some s, timer := False,
      timeouts := (if snd lim then 1 else 0)\<rparr>))" (is "_ = Inr (Some ?z)")
    using timer_fired_eq [of ?y s] x(10,11) s(1) by (simp add: stop_def)
  have "\<not> work_left ?z \<and> \<not> running ?z \<and> xresponse ?z = None \<and> readyState ?z = ready_code Opened"
    using s(3) x(7,8) by (simp add: work_left_def running_def stop_service_def)
  with fired have "\<exists>z. timer_fired False ?y = Inr (Some z) \<and> \<not> work_left z \<and> \<not> running z \<and> xsession z = Some s \<and>
      xresponse z = None \<and> readyState z = ready_code Opened \<and> timeouts z = (if snd lim then 1 else 0)"
    by (intro exI [of _ ?z]) simp
  moreover have "work_left ?y = (0 < sint (fst lim))"
    using x(3,9) s(3) by (simp add: work_left_def)
  ultimately show ?thesis
    using x run s by (intro exI [of _ ?y] exI [of _ s]) simp
qed

theorem failed_connection_ends_the_request_witness:
  "\<exists>x s. user_request sample_env sample_platform False HandshakeFailed True (500, True) ''Post'' ''https://a-b.org:8443/x?k=v#top''
      [(''accept'', ''*/*'')] (Some ''hello'') = Inr (Some x) \<and>
    service x = Some \<lparr>svc_stopped = False, jobs = []\<rparr> \<and> xresponse x = None \<and> readyState x = ready_code Opened \<and>
    xsession x = Some s \<and> stopped s \<and> ng s = None \<and> streams s = [] \<and> ops s = [] \<and> log s = [] \<and> timeouts x = 0 \<and>
    work_left x \<and>
    (\<exists>z. timer_fired False x = Inr (Some z) \<and> \<not> work_left z \<and> \<not> running z \<and> xsession z = Some s \<and>
      xresponse z = None \<and> readyState z = ready_code Opened \<and> timeouts z = 1)"
proof -
  have "to_upper ''Post'' = ''POST''"
    by code_simp
  then have post: "to_upper ''Post'' \<in> {''GET'', ''POST''}"
    by simp
  have "garbage sample_env = []" "0 < sint (500 :: 64 word)"
    by (simp_all add: sample_env_def)
  then show ?thesis
    using failed_connection_ends_the_request [OF sample_uri(1) _ post, of False HandshakeFailed sample_platform True
        "(500, True)" "[(''accept'', ''*/*'')]" "Some ''hello''"] by simp
qed

lemma connect_job:
  assumes "xsession x = Some s" and "prepared h s"
    and "client_new p = Some g0" and "never_nomem p" and "sends_settings p g0"
  shows "\<exists>t. connect p False (Handshaked npn alpn) x = Inr (x\<lparr>xsession := Some t\<rparr>) \<and> awaiting h t \<and> log t = [] \<and>
    onSocketConnected p s = Inr t"
proof -
  have s: "fresh s" "stopped s" "\<not> on_start s" "log s = []"
    using assms(2) by (simp_all add: prepared_def)
  obtain t where t: "onSocketConnected p s = Inr t" "awaiting h t" "log t = []" "\<not> on_start t"
    using connect_writes [OF assms(3-5) s(1)] assms(2) by (auto simp: awaiting_def prepared_def)
  then have "tls_startResolve p False (Handshaked npn alpn) s = Inr (t, True)"
    using s by (simp add: tls_startResolve_def startResolve_def startConnect_def)
  then show ?thesis
    using t s assms(1) by (auto simp: connect_def on_session_def)
qed

definition default_priority :: priority_spec where
  "default_priority = \<lparr>pri_stream = 0, pri_weight = 0, pri_exclusive = False\<rparr>"

text \<open>nghttp2 accepts requests and gives them identifiers of 31 bits.\<close>

definition accepts_requests :: "'ng platform \<Rightarrow> bool" where
  "accepts_requests p \<longleftrightarrow>
     (\<forall>g nvs prov. case submit_request p g default_priority nvs prov of (g', i) \<Rightarrow> 0 \<le> i \<and> i < 2 ^ 31)"

lemma fetch_job:
  assumes "xsession x = Some s" and "awaiting h s" and "ng s = Some g"
    and "xmethod x = m" and "m \<in> {''GET'', ''POST''}" and "fetch_url x = render_url q" and "url_parts_ok q"
    and "submit_request p g default_priority (request_fields p m q (xheader x)) (provides m b) = (g', i)"
    and "0 \<le> i" and "i < 2 ^ 31"
  shows "\<exists>t r. run_job p rf oc (job_for m b) x = Inr (x\<lparr>xsession := Some t\<rparr>) \<and> awaiting h t \<and> ng t = Some g' \<and>
    findStream (word_of_int i) t = Some r \<and> rp r = new_response \<and>
    (\<forall>out wire. counts_output p out \<longrightarrow> run_ok out wire s \<longrightarrow> run_ok out wire t)"
proof -
  have url: "render_url q \<noteq> []"
    using url_parts_okD(1) [OF assms(7)] by (simp add: render_url_def)
  note name = sendable_methods(2) [OF assms(5)]
  have s: "\<not> stopped s" "writing s"
    using assms(2) by (simp_all add: awaiting_def)
  obtain u where u: "submit p (render_url q) m (xheader x) 0 0 False (provides m b) s =
      Inr (register_stream p i (s\<lparr>parser := u, ng := Some g'\<rparr>), NoError, i)"
    using submit_while_writing [OF assms(7) s assms(3) assms(8) [unfolded default_priority_def] assms(9)] by blast
  define t where "t = register_stream p i (s\<lparr>parser := u, ng := Some g'\<rparr>)"
  have "blank t"
    using assms(2) by (auto simp: t_def awaiting_def blank_def register_stream_def try_emplace_def new_stream_def)
  have keeps: "\<forall>out wire. counts_output p out \<longrightarrow> run_ok out wire s \<longrightarrow> run_ok out wire t"
    using submit_ok u unfolding t_def by blast
  from \<open>blank t\<close> have t: "awaiting h t" "ng t = Some g'" "log t = log s" "findStream (word_of_int i) t \<noteq> None"
    using assms(2) findStream_register [OF assms(9,10), of p]
    by (auto simp: t_def awaiting_def split: option.splits)
  have "\<not> i < 0"
    using assms(9) by simp
  then have "run_job p rf oc (job_for m b) x = Inr (x\<lparr>xsession := Some t\<rparr>)"
  proof (cases "provides m b")
    case True
    then have "on_session (tls_submit_body p (xheader x) (render_url q) (methodFromString m)) x =
        Inr (x\<lparr>xsession := Some t\<rparr>, NoError, i)"
      using u t(3) assms(1,5) by (intro on_session_quiet)
        (simp_all add: tls_submit_body_def name t_def)
    then show ?thesis
      using True assms(1,4,5,6) url s \<open>\<not> i < 0\<close>
      by (auto simp: job_for_def fetchWithBody_def impl_fetch_body_def sendable_methods(1) stop_on_error_def)
  next
    case False
    then have "on_session (tls_submit_method p (xheader x) (render_url q) (methodFromString m)) x =
        Inr (x\<lparr>xsession := Some t\<rparr>, NoError, i)"
      using u t(3) assms(1,5) by (intro on_session_quiet)
        (simp_all add: tls_submit_method_def tls_submit_def name t_def)
    then show ?thesis
      using False assms(1,4,5,6) url s \<open>\<not> i < 0\<close>
      by (auto simp: job_for_def fetch_def impl_fetch_def sendable_methods(1) stop_on_error_def)
  qed
  then show ?thesis
    using t keeps blank_find [OF \<open>blank t\<close>] by blast
qed

text \<open>A request that is sent for a URL of this kind, as the theorems about it assume.\<close>

definition sendable_url :: "url_parts \<Rightarrow> bool" where
  "sendable_url q \<longleftrightarrow> url_parts_ok q \<and> scheme q \<in> {''http'', ''https''} \<and> userinfo q = None \<and>
     plain_host (host q) \<and> length (render_url q) + 4 < 65536"

definition serves :: "'ng platform \<Rightarrow> 'ng \<Rightarrow> bool" where
  "serves p g0 \<longleftrightarrow>
     client_new p = Some g0 \<and> never_nomem p \<and> sends_settings p g0 \<and> accepts_requests p"

lemma request_sent:
  assumes "perl_regex (engine env)" and "garbage env = []" and "sendable_url q"
    and "to_upper m \<in> {''GET'', ''POST''}" and "serves p g0"
  shows "\<exists>x s g g' i r. user_request env p False (Handshaked npn alpn) async lim m (render_url q) hs b = Inr (Some x) \<and>
    attached x \<and> service x = Some \<lparr>svc_stopped = False, jobs = []\<rparr> \<and>
    endpoint x = NetService (host q) (used_port q) \<and> body x = body_text b \<and> xresponse x = None \<and>
    xsession x = Some s \<and> awaiting (\<not> async) s \<and>
    submit_request p g default_priority (request_fields p (to_upper m) q (fields_of hs []))
      (provides (to_upper m) b) = (g', i) \<and>
    0 \<le> i \<and> i < 2 ^ 31 \<and> ng s = Some g' \<and> findStream (word_of_int i) s = Some r \<and> rp r = new_response \<and>
    (\<forall>out. counts_output p out \<longrightarrow> chunk_bound p \<longrightarrow> out g0 = [] \<longrightarrow> run_ok out [] s)"
proof -
  note q = assms(3) [unfolded sendable_url_def]
  note p = assms(5) [unfolded serves_def]
  let ?m = "to_upper m"
  obtain el where el: "proccessUri (engine env) (render_url q) = Some el" "e_addr el = host q"
      "e_port el = used_port q" "full_url el = render_url (explicit_port q)"
    using proccessUri_parts [OF assms(1)] q by (auto simp: explicit_port_def)
  obtain x s where x: "user_request env p False (Handshaked npn alpn) async lim m (render_url q) hs b =
        and_then (run_jobs p False (Handshaked npn alpn) 2 x) (\<lambda>x. Inr (Some x))"
      "attached x" "xsession x = Some s" "prepared (\<not> async) s"
      "service x = Some \<lparr>svc_stopped = False, jobs = [(ConnectJob, True), (job_for ?m b, True)]\<rparr>"
      "xmethod x = ?m" "endpoint x = NetService (host q) (used_port q)" "fetch_url x = render_url (explicit_port q)"
      "xheader x = fields_of hs []" "body x = body_text b" "xresponse x = None"
    using user_request_start [OF el(1) assms(2,4), of p False "Handshaked npn alpn" async lim hs b] el(2-4) by auto
  let ?x = "x\<lparr>service := Some \<lparr>svc_stopped = False, jobs = [(job_for ?m b, True)]\<rparr>\<rparr>"
  obtain t where t: "connect p False (Handshaked npn alpn) ?x = Inr (?x\<lparr>xsession := Some t\<rparr>)" "awaiting (\<not> async) t"
      "onSocketConnected p s = Inr t"
    using connect_job [of ?x s "\<not> async" p g0 npn alpn] x(3,4) p by auto
  then obtain g where g: "ng t = Some g"
    by (auto simp: awaiting_def)
  let ?y = "?x\<lparr>xsession := Some t, service := Some \<lparr>svc_stopped = False, jobs = []\<rparr>\<rparr>"
  obtain g' i where sub: "submit_request p g default_priority
      (request_fields p ?m q (fields_of hs [])) (provides ?m b) = (g', i)"
    by (metis prod.exhaust)
  then have i: "0 \<le> i" "i < 2 ^ 31"
    using p [unfolded accepts_requests_def, THEN conjunct2, THEN conjunct2, THEN conjunct2, rule_format,
        of g "request_fields p ?m q (fields_of hs [])" "provides ?m b"]
    by (simp_all only: case_prod_conv)
  have port_ok: "url_parts_ok (explicit_port q)"
      "request_fields p m' (explicit_port q) hdr = request_fields p m' q hdr" for m' hdr
    using explicit_port_ok [of q] q by blast+
  have "\<exists>u r. run_job p False (Handshaked npn alpn) (job_for ?m b) ?y = Inr (?y\<lparr>xsession := Some u\<rparr>) \<and>
      awaiting (\<not> async) u \<and> ng u = Some g' \<and> findStream (word_of_int i) u = Some r \<and> rp r = new_response \<and>
      (\<forall>out wire. counts_output p out \<longrightarrow> run_ok out wire t \<longrightarrow> run_ok out wire u)"
  proof (rule fetch_job [OF _ t(2) g _ assms(4) _ _ _ i])
    show "xsession ?y = Some t" "xmethod ?y = ?m" "fetch_url ?y = render_url (explicit_port q)"
      using x(6,8) by (simp_all add: fetch_url_def)
    show "submit_request p g default_priority
        (request_fields p ?m (explicit_port q) (xheader ?y)) (provides ?m b) = (g', i)"
      using sub x(9) q by (simp add: port_ok)
    show "url_parts_ok (explicit_port q)"
      using q by (simp add: port_ok)
  qed
  then obtain u r where u: "run_job p False (Handshaked npn alpn) (job_for ?m b) ?y = Inr (?y\<lparr>xsession := Some u\<rparr>)"
      "awaiting (\<not> async) u" "ng u = Some g'" "findStream (word_of_int i) u = Some r" "rp r = new_response"
      "\<forall>out wire. counts_output p out \<longrightarrow> run_ok out wire t \<longrightarrow> run_ok out wire u"
    by blast
  have "fresh s" "client_new p = Some g0"
    using x(4) p by (simp_all add: prepared_def)
  then have sound: "run_ok out [] u" if "counts_output p out" "chunk_bound p" "out g0 = []" for out
    using connected_ok [OF that(1,2) _ that(3)] t(3) u(6) that(1) by fastforce
  let ?z = "?y\<lparr>xsession := Some u\<rparr>"
  have "run_jobs p False (Handshaked npn alpn) 2 x = Inr ?z"
    using x(5) t(1) u(1) by (simp add: numeral_2_eq_2)
  moreover have "attached ?z"
    using x(2) by (simp add: attached_def)
  ultimately show ?thesis
    using x(1,7,10,11) u(2-5) sub i sound
    by (intro exI [of _ ?z] exI [of _ u] exI [of _ g] exI [of _ g'] exI [of _ i] exI [of _ r]) simp
qed


lemma sample_serves: "serves sample_platform ([], [])"
proof -
  have "never_nomem sample_platform" "accepts_requests sample_platform"
    by (auto simp: never_nomem_def accepts_requests_def sample_platform_def)
  moreover have "fill_reports sample_platform g k = []" for g k
    by (rule fill_reports_none) (simp add: sample_platform_def)
  ultimately show ?thesis
    by (simp add: serves_def sends_settings_def greeted_def sendClientConnectionHeader_def)
       (simp add: sample_platform_def wb_size_value)
qed

lemma plain_sendable: "sendable_url plain_url"
  using plain_url_ok(1-4) unfolding sendable_url_def plain_url_ok(5) by simp


end
