(* ===== verification/Response_Assembly.thy ===== *)
theory Response_Assembly
  imports Session_Core
begin

text \<open>
  What the callbacks make of the sequences of calls nghttp2 issues: how an answer is put together,
  which streams a call touches, and where the order of the calls shows.
\<close>

section \<open>One call at a time\<close>

lemma findStream_onHeader_other:
  "j \<noteq> fstream f \<Longrightarrow> j \<noteq> promised f \<Longrightarrow> findStream j (onHeader f n v fl s) = findStream j s"
  by (auto simp: onHeader_def Let_def findStream_upd split: option.split)

lemma findStream_onBeginHeaders_other:
  assumes "valid_id (fstream f)" and "valid_id (promised f)" and "j \<noteq> fstream f" and "j \<noteq> promised f"
  shows "findStream j (onBeginHeaders fr f s) = findStream j s"
  using assms by (simp add: onBeginHeaders_def createPushStream_def new_stream_def findStream_add)

lemma frame_ready_hook [simp]:
  "findStream i (ready_hook x s) = findStream i s" "mime (ready_hook x s) = mime s"
  "on_ready (ready_hook x s) = on_ready s" "on_state (ready_hook x s) = on_state s"
  "ops (ready_hook x s) = ops s" "wb (ready_hook x s) = wb s" "writing (ready_hook x s) = writing s"
  "data_pending (ready_hook x s) = data_pending s" "insideCb (ready_hook x s) = insideCb s"
  "ng (ready_hook x s) = ng s"
  by (simp_all add: ready_hook_def Let_def split: ready_callback.split)

text \<open>The identifiers an event is about.\<close>

fun concerns :: "ng_event \<Rightarrow> 32 word set" where
  "concerns (BeforeSend f) = {fstream f}"
| "concerns (BeginHeaders f) = {fstream f, promised f}"
| "concerns (HeaderField f _ _ _) = {fstream f, promised f}"
| "concerns (FrameRecv f) = {fstream f}"
| "concerns (DataChunk i _) = {i}"
| "concerns (StreamClose i) = {i}"

definition ids_ok :: "ng_event \<Rightarrow> bool" where
  "ids_ok e \<longleftrightarrow> (\<forall>i\<in>concerns e. valid_id i)"

lemma outgoing_id: "stream_id (processOutgoingFrame f (set_state x (createPushStream fr i s))) = i"
  by (simp add: processOutgoingFrame_def set_state_def createPushStream_def new_stream_def)

lemma handle_other_stream:
  assumes "\<forall>i\<in>concerns e. valid_id i" and "j \<notin> concerns e"
  shows "findStream j (handle fr e s) = findStream j s"
proof (cases e)
  case (BeforeSend f)
  then show ?thesis
    using assms by (auto simp: beforeFrameSend_def findStream_upd findStream_add outgoing_id split: option.split)
next
  case (BeginHeaders f)
  then show ?thesis
    using assms by (simp add: findStream_onBeginHeaders_other)
next
  case (HeaderField f n v fl)
  then show ?thesis
    using assms by (simp add: findStream_onHeader_other)
next
  case (FrameRecv f)
  then show ?thesis
    using assms by (simp add: onFrameRecv_def findStream_upd split: option.split)
next
  case (DataChunk i c)
  then show ?thesis
    using assms by (simp add: onDataChunkRecv_def Let_def findStream_upd split: option.split)
next
  case (StreamClose i)
  then show ?thesis
    using assms by (simp add: onStreamClose_def findStream_remove findStream_upd split: option.split)
qed

text \<open>
  C14: Streams do not interfere: taking in any sequence of events leaves every stream none of the
  events is about exactly as it was, its request, its response and its state.
\<close>

theorem streams_are_isolated:
  assumes "\<forall>e\<in>set es. (\<forall>i\<in>concerns e. valid_id i) \<and> j \<notin> concerns e"
  shows "findStream j (handle_all fr es s) = findStream j s"
  using assms unfolding handle_all_def
proof (induction es arbitrary: s)
  case (Cons e es)
  then show ?case
    by (simp add: handle_other_stream)
qed simp

theorem streams_are_isolated_witness:
  "findStream 1 (handle_all (\<lambda>_ _. None) [DataChunk 3 [7], StreamClose 5]
     (fst (addStream (new_stream 1 None) (new_session [] :: unit session)))) =
   findStream 1 (fst (addStream (new_stream 1 None) (new_session [] :: unit session)))"
  by (rule streams_are_isolated) (simp add: valid_id_def)

section \<open>Assembling an answer\<close>

type_synonym field = "string \<times> string \<times> byte"

definition take_field :: "string \<Rightarrow> field \<Rightarrow> response \<Rightarrow> response" where
  "take_field m = (\<lambda>(n, v, fl). response_field m n v fl)"

definition field_events :: "frame \<Rightarrow> field list \<Rightarrow> ng_event list" where
  "field_events f hdrs = map (\<lambda>(n, v, fl). HeaderField f n v fl) hdrs"

lemma frame_received_messages [simp]:
  "rq (frame_received f x) = rq x" "rp (frame_received f x) = rp x"
  by (simp_all add: frame_received_def set_state_def Let_def)

lemma handle_close:
  assumes "findStream i s = Some x"
  shows "findStream i (handle fr (StreamClose i) s) = None"
    and "log (handle fr (StreamClose i) s) =
      log s @ (if on_state s then [StateChange (ready_code Done)] else []) @
      (case on_ready s of
         NoReady \<Rightarrow> []
       | ReadyThen sync \<Rightarrow>
           ReadyEvent (rq x) (rp x) # (if sync \<and> \<not> stopped s then [SocketShutdown] else []))"
    and "stopped (handle fr (StreamClose i) s) = (stopped s \<or> on_ready s = ReadyThen True)"
  using assms
  by (auto simp: onStreamClose_def findStream_remove ready_hook_def Let_def
      split: ready_callback.split)

definition answer :: "string \<Rightarrow> field list \<Rightarrow> byte list list \<Rightarrow> response \<Rightarrow> response" where
  "answer m hdrs chunks r = fold add_data chunks (fold (take_field m) hdrs r)"

section \<open>What an answer holds\<close>

lemma response_field_plain:
  "response_field [] name v fl r =
     save_field name v fl
       (if lookup_token (bytes name) (length name) = Some HD__STATUS then set_statusCode (parse_uint (bytes v)) r
        else if lookup_token (bytes name) (length name) = Some HD_CONTENT_LENGTH
          then set_contentLength (parse_uint (bytes v)) r
        else r)"
  by (simp add: response_field_def Let_def)

lemma frame_data [simp]:
  "rp_data (take_field m p r) = rp_data r"
  by (simp add: take_field_def response_field_def save_field_def override_field_def add_rp_header_def
      set_statusCode_def set_contentLength_def Let_def split: prod.split option.split)

lemma data_take_fields [simp]: "rp_data (fold (take_field m) hdrs r) = rp_data r"
  by (induction hdrs arbitrary: r) simp_all

lemma answer_data: "rp_data (answer m hdrs chunks r) = rp_data r @ chunks"
  by (simp add: answer_def data_after)

lemma statusCode_after [frame_simps]: "rp_statusCode (fold add_data chunks r) = rp_statusCode r"
  by (induction chunks arbitrary: r) (auto simp: add_data_def)

definition as_value :: "field \<Rightarrow> string \<times> header_value" where
  "as_value = (\<lambda>(n, v, fl). (n, \<lparr>hv_value = v, sensitive = has_flag fl NV_FLAG_NO_INDEX\<rparr>))"

lemma header_take_field:
  "rp_header (take_field [] p r) = emplace (fst (as_value p)) (snd (as_value p)) (rp_header r)"
  by (cases p) (simp add: take_field_def response_field_plain save_field_def add_rp_header_def
      set_statusCode_def set_contentLength_def as_value_def)

lemma answer_header:
  "rp_header (answer [] hdrs chunks r) = fold (\<lambda>(k, v). emplace k v) (map as_value hdrs) (rp_header r)"
proof -
  have "rp_header (fold (take_field []) hdrs r) =
      fold (\<lambda>(k, v). emplace k v) (map as_value hdrs) (rp_header r)"
    by (induction hdrs arbitrary: r) (simp_all add: header_take_field case_prod_beta)
  then show ?thesis
    by (simp add: answer_def frame_simps)
qed

definition values_of :: "string \<Rightarrow> field list \<Rightarrow> string list" where
  "values_of name hdrs = map (\<lambda>(n, v, fl). v) (filter (\<lambda>(n, v, fl). n = name) hdrs)"

lemma status_take_field:
  "rp_statusCode (take_field m (n, v, fl) r) =
     (if n = '':status'' then signed_take_bit 31 (parse_uint (bytes v)) else rp_statusCode r)"
  using lookup_token_bytes [of n HD__STATUS]
  by (auto simp: take_field_def response_field_def save_field_def override_field_def add_rp_header_def
      set_statusCode_def set_contentLength_def Let_def split: option.split)

lemma status_take_fields:
  "rp_statusCode (fold (take_field m) hdrs r) =
     (if values_of '':status'' hdrs = [] then rp_statusCode r
      else signed_take_bit 31 (parse_uint (bytes (last (values_of '':status'' hdrs)))))"
proof (induction hdrs arbitrary: r)
  case Nil
  then show ?case by (simp add: values_of_def)
next
  case (Cons p hdrs)
  then show ?case
    by (cases p) (simp add: values_of_def status_take_field)
qed

lemma answer_status:
  assumes "values_of '':status'' hdrs = [numeral_of code]" and "code < 2 ^ 31"
  shows "get_statusCode (answer m hdrs chunks r) = int code"
proof -
  have "parse_uint (bytes (numeral_of code)) = int code"
    using assms(2) numeral_of_digits [of code]
    by (simp add: parse_uint_value list_all_iff int64_max_def)
  then show ?thesis
    using assms by (simp add: get_statusCode_def answer_def statusCode_after status_take_fields
        signed_take_bit_int_eq_self)
qed

definition sample_headers :: frame where
  "sample_headers =
     \<lparr>ftype = HEADERS, fstream = 1, fflags = 4, fcat = HCAT_RESPONSE, promised = 0, nva = []\<rparr>"

definition sample_data :: frame where
  "sample_data = \<lparr>ftype = DATA, fstream = 1, fflags = 1, fcat = HCAT_RESPONSE, promised = 0, nva = []\<rparr>"

definition sample_session :: "unit session" where
  "sample_session = (fst (addStream (new_stream 1 None) (new_session [])))
     \<lparr>on_state := True, on_ready := ReadyThen True, stopped := False\<rparr>"

section \<open>Where the order shows\<close>

text \<open>
  C37: A header block that is not the first of its stream (trailers, and according to nghttp2 also the
  final response behind a 1xx one) changes no stream: its fields are dropped, but each of them still
  reports the state \<open>HeadersReceived\<close>, also when the body is already being received.
\<close>

theorem later_headers_are_dropped:
  assumes "ftype f = HEADERS" and "fcat f = HCAT_HEADERS"
  shows "streams (handle_all fr (field_events f hdrs) s) = streams s \<and>
    log (handle_all fr (field_events f hdrs) s) =
      log s @ (if on_state s then replicate (length hdrs) (StateChange (ready_code HeadersReceived)) else [])"
proof (induction hdrs arbitrary: s)
  case Nil
  then show ?case by (simp add: field_events_def handle_all_def)
next
  case (Cons p hdrs)
  obtain n v fl where p: "p = (n, v, fl)"
    by (cases p)
  have "onHeader f n v fl s = notify_state HeadersReceived s"
    using assms by (simp add: onHeader_def Let_def split: option.split)
  then show ?case
    using Cons.IH [of "notify_state HeadersReceived s"]
    by (auto simp: p field_events_def handle_all_def)
qed

theorem later_headers_are_dropped_witness:
  "(let f = \<lparr>ftype = HEADERS, fstream = 1, fflags = 4, fcat = HCAT_HEADERS, promised = 0, nva = []\<rparr>;
        s = (new_session [] :: unit session)\<lparr>on_state := True\<rparr>
    in log (handle_all (\<lambda>_ _. None) (field_events f [('':status'', ''200'', 0)]) s) = [StateChange 2])"
  using later_headers_are_dropped [of "\<lparr>ftype = HEADERS, fstream = 1, fflags = 4, fcat = HCAT_HEADERS,
      promised = 0, nva = []\<rparr>" "\<lambda>_ _. None" "[('':status'', ''200'', 0)]"
      "(new_session [] :: unit session)\<lparr>on_state := True\<rparr>"]
  by (simp add: Let_def new_session_def ready_code_def)

lemma index_from_first: "c \<notin> set xs \<Longrightarrow> index_from c i (xs @ c # ys) = Some (i + length xs)"
  by (induction xs arbitrary: i) auto

text \<open>
  With an overriding MIME type in force the server's content type is never stored. If the type
  has a parameter part behind a semicolon, a field is stored whose name is the type itself and whose
  value is that part without white space; if it has none, nothing is stored at all.
\<close>

theorem mime_override:
  assumes "CHR '';'' \<notin> set t" and "t \<noteq> []"
  shows "response_field (t @ CHR '';'' # params) ''content-type'' v fl r =
      add_rp_header t \<lparr>hv_value = filter (\<lambda>c. \<not> is_space c) params,
        sensitive = has_flag fl NV_FLAG_NO_INDEX\<rparr> r \<and>
    response_field t ''content-type'' v fl r = r"
proof -
  have token: "lookup_token (bytes ''content-type'') (length ''content-type'') = Some HD_CONTENT_TYPE"
    using lookup_token_bytes [of "''content-type''" HD_CONTENT_TYPE] by simp
  have none: "index_from CHR '';'' 0 t = None"
    using assms(1) by simp
  show ?thesis
    unfolding response_field_def token
    using assms by (simp add: override_field_def index_from_first none)
qed

theorem mime_override_witness:
  "response_field ''text/plain; charset=utf-8'' ''content-type'' ''image/png'' 0 new_response =
     add_rp_header ''text/plain'' \<lparr>hv_value = ''charset=utf-8'', sensitive = False\<rparr> new_response"
  using mime_override [of "''text/plain''" "'' charset=utf-8''" "''image/png''" 0 new_response]
  by (simp add: is_space_def has_flag_def less_eq_char_def)

section \<open>Pushed requests\<close>

definition pseudo_names :: "string set" where
  "pseudo_names = {'':method'', '':scheme'', '':path'', '':authority''}"

lemma pseudo_token:
  "name \<in> pseudo_names \<longleftrightarrow> (\<exists>t\<in>{HD__METHOD, HD__SCHEME, HD__PATH, HD__AUTHORITY}.
     lookup_token (bytes name) (length name) = Some t)"
  by (auto simp: pseudo_names_def lookup_token_bytes)

definition no_pseudo :: "request \<Rightarrow> bool" where
  "no_pseudo r \<longleftrightarrow> rq_scheme r = [] \<and> rq_method r = [] \<and> (\<forall>p\<in>set (rq_header r). fst p \<notin> pseudo_names)"

lemma no_pseudo_push_field: "no_pseudo r \<Longrightarrow> no_pseudo (push_field n v fl r)"
proof (cases "n \<in> pseudo_names")
  case True
  assume "no_pseudo r"
  then show ?thesis
    using True unfolding pseudo_token
    by (auto simp: push_field_def Let_def set_method_def set_scheme_def set_host_def)
next
  case False
  assume "no_pseudo r"
  then show ?thesis
    using False pseudo_token [of n]
    by (auto simp: push_field_def Let_def no_pseudo_def add_header_def get_host_def set_host_def set_emplace)
qed

lemma no_pseudo_getters:
  assumes "no_pseudo r"
  shows "fst (get_method r) = []" and "fst (get_scheme r) = []"
proof -
  have "find_field k (rq_header r) = None" if "k \<in> pseudo_names" for k
    using assms that by (auto simp: no_pseudo_def find_field_def find_None_iff)
  then show "fst (get_method r) = []" and "fst (get_scheme r) = []"
    using assms by (simp_all add: get_method_def get_scheme_def find_header_def no_pseudo_def pseudo_names_def)
qed

text \<open>
  The request of a pushed stream never learns its pseudo-header fields: whatever fields the push
  promise carries, the method and the scheme of the request stay empty.
\<close>

theorem pushed_request_has_no_method:
  "fst (get_method (fold (\<lambda>(n, v, fl). push_field n v fl) hdrs new_request)) = [] \<and>
   fst (get_scheme (fold (\<lambda>(n, v, fl). push_field n v fl) hdrs new_request)) = []"
proof -
  have "no_pseudo r \<Longrightarrow> no_pseudo (fold (\<lambda>(n, v, fl). push_field n v fl) hdrs r)" for r
    by (induction hdrs arbitrary: r) (auto intro: no_pseudo_push_field)
  moreover have "no_pseudo new_request"
    by (simp add: no_pseudo_def new_request_def)
  ultimately show ?thesis
    using no_pseudo_getters by blast
qed

section \<open>The life of a stream\<close>

text \<open>
  The table is well formed when no key occurs twice and every stream stands under the key of its own
  identifier; no callback writes the status of a stream, so it stays 0.
\<close>

definition table_ok :: "'ng session \<Rightarrow> bool" where
  "table_ok s \<longleftrightarrow>
     distinct (map fst (streams s)) \<and> (\<forall>(k, x)\<in>set (streams s). k = add_key x \<and> status_code x = 0)"

lemma table_ok_add: "table_ok s \<Longrightarrow> status_code x = 0 \<Longrightarrow> table_ok (fst (addStream x s))"
  by (auto simp: table_ok_def addStream_def try_emplace_def table_find_def map_of_eq_None_iff
      split: prod.split)

lemma table_ok_remove: "table_ok s \<Longrightarrow> table_ok (removeStream i s)"
  by (auto simp: table_ok_def removeStream_def table_erase_def distinct_map_filter)

lemma table_ok_upd:
  assumes "\<And>x. stream_id (f x) = stream_id x \<and> status_code (f x) = status_code x" and "table_ok s"
  shows "table_ok (updStream i f s)"
proof -
  have keys: "map fst (table_update k f m) = map fst m" for k m
    by (simp add: table_update_def case_prod_beta comp_def)
  have "add_key (f x) = add_key x" for x
    using assms(1) by (simp add: add_key_def get_id_def)
  then have "\<forall>(k, x)\<in>set (table_update (ucast i) f (streams s)). k = add_key x \<and> status_code x = 0"
    using assms by (auto simp: table_ok_def table_update_def)
  then show ?thesis
    using assms(2) by (simp add: table_ok_def updStream_def keys)
qed

lemma table_ok_frame [simp]:
  "table_ok (notify_state r s) = table_ok s" "table_ok (emit e s) = table_ok s" "table_ok (stop s) = table_ok s"
  "table_ok (ready_hook x s) = table_ok s"
  by (simp_all add: table_ok_def ready_hook_def Let_def split: ready_callback.split)

lemma frame_received_keys [simp]:
  "stream_id (frame_received f x) = stream_id x" "status_code (frame_received f x) = status_code x"
  by (simp_all add: frame_received_def set_state_def Let_def)

lemma outgoing_keys [simp]:
  "stream_id (processOutgoingFrame f x) = stream_id x" "status_code (processOutgoingFrame f x) = status_code x"
  by (simp_all add: processOutgoingFrame_def set_state_def)

lemma table_ok_handle: "table_ok s \<Longrightarrow> table_ok (handle fr e s)"
  by (cases e) (auto simp: beforeFrameSend_def onBeginHeaders_def onHeader_def onFrameRecv_def onDataChunkRecv_def
    onStreamClose_def Let_def set_state_def createPushStream_def new_stream_def
    intro!: table_ok_add table_ok_remove table_ok_upd split: option.split)

lemma table_found:
  assumes "table_ok s" and "findStream i s = Some x"
  shows "stream_id x = i" and "status_code x = 0"
proof -
  have "(ucast i, x) \<in> set (streams s)"
    using assms(2) by (auto simp: findStream_def table_find_def dest: map_of_SomeD)
  then have key: "(ucast i :: 64 word) = add_key x" and status: "status_code x = 0"
    using assms(1) by (auto simp: table_ok_def)
  have "(ucast (ucast i :: 64 word) :: 32 word) = ucast (add_key x)"
    using key by simp
  moreover have "(ucast (ucast i :: 64 word) :: 32 word) = i" "(ucast (add_key x) :: 32 word) = stream_id x"
    by (auto simp: add_key_def get_id_def intro!: bit_word_eqI simp: bit_simps)
  ultimately show "stream_id x = i" and "status_code x = 0"
    using status by simp_all
qed

text \<open>
  The life of stream \<open>i\<close> as a state machine of its own: not in the table (\<open>None\<close>), or in a state. It
  comes into the table with the first header block or frame, moves with the frames received and sent for it
  and leaves the table when it is closed.
\<close>

definition stream_begun :: "frame \<Rightarrow> 32 word" where
  "stream_begun f = (if ftype f = PUSH_PROMISE then promised f else fstream f)"

definition after_frame :: "frame \<Rightarrow> stream_state \<Rightarrow> stream_state" where
  "after_frame f x =
     (if ftype f = GOAWAY then Closed
      else if ftype f = HEADERS then
        (if has_flag (fflags f) FLAG_END_STREAM \<and> fcat f \<noteq> HCAT_HEADERS then HalfClosedRemote
         else if x = Idle then Open else x)
      else if x = Idle then Idle
      else if ftype f = DATA \<and> has_flag (fflags f) FLAG_END_STREAM then HalfClosedRemote
      else if ftype f = PUSH_PROMISE then ReservedRemote
      else x)"

fun life :: "32 word \<Rightarrow> ng_event \<Rightarrow> stream_state option \<Rightarrow> stream_state option" where
  "life i (BeforeSend f) x =
     (if fstream f \<noteq> i then x
      else if ftype f = GOAWAY then Some Closed
      else if x = None then Some Open else x)"
| "life i (BeginHeaders f) x = (if stream_begun f = i \<and> x = None then Some Idle else x)"
| "life i (HeaderField f n v fl) x =
     (if ftype f = PUSH_PROMISE \<and> promised f = i \<and> x = Some Idle then Some ReservedRemote else x)"
| "life i (FrameRecv f) x = (if fstream f = i then map_option (after_frame f) x else x)"
| "life i (DataChunk j d) x = x"
| "life i (StreamClose j) x = (if j = i then None else x)"

lemma st_received:
  assumes "status_code x = 0"
  shows "st (frame_received f x) = after_frame f (st x)"
  using assms by (simp add: frame_received_def after_frame_def expectFinalResponse_def set_state_def Let_def)

lemma st_simps [simp]:
  "st (new_stream i q) = Idle" "st (set_state y x) = y" "stream_id (new_stream i q) = i"
  "stream_id (set_state y x) = stream_id x"
  "st (processOutgoingFrame f x) = (if ftype f = GOAWAY then Closed else st x)"
  by (simp_all add: new_stream_def set_state_def processOutgoingFrame_def)

lemma life_handle:
  assumes "table_ok s" and "ids_ok e"
  shows "map_option st (findStream i (handle fr e s)) = life i e (map_option st (findStream i s))"
proof (cases e)
  case (BeforeSend f)
  then show ?thesis
    using assms(2) by (cases "findStream (fstream f) s")
      (auto simp: beforeFrameSend_def findStream_upd findStream_add createPushStream_def ids_ok_def)
next
  case (BeginHeaders f)
  then show ?thesis
    using assms(2)
    by (auto simp: onBeginHeaders_def createPushStream_def findStream_add stream_begun_def ids_ok_def)
next
  case (HeaderField f n v fl)
  then show ?thesis
    by (cases "findStream i s") (auto simp: onHeader_def Let_def findStream_upd set_state_def split: option.split)
next
  case (FrameRecv f)
  then show ?thesis
    using table_found(2) [OF assms(1)]
    by (cases "findStream i s") (auto simp: onFrameRecv_def findStream_upd st_received split: option.split)
next
  case (DataChunk j d)
  then show ?thesis
    by (cases "findStream i s") (auto simp: onDataChunkRecv_def Let_def findStream_upd split: option.split)
next
  case (StreamClose j)
  then show ?thesis
    by (auto simp: onStreamClose_def findStream_remove findStream_upd split: option.split)
qed

text \<open>
  C24: Every stream lives a life of its own. After any events of any streams, in any order, a
  stream is in the table exactly if it was begun and not closed since, under its own identifier and under no
  other, and its state is the one the events about it lead to.
\<close>

theorem streams_live_their_lives:
  assumes "table_ok s" and "\<forall>e\<in>set es. ids_ok e"
  shows "table_ok (handle_all fr es s) \<and>
    map_option st (findStream i (handle_all fr es s)) = fold (life i) es (map_option st (findStream i s)) \<and>
    (\<forall>x. findStream i (handle_all fr es s) = Some x \<longrightarrow> stream_id x = i)"
proof -
  have "table_ok (handle_all fr es s) \<and>
      map_option st (findStream i (handle_all fr es s)) = fold (life i) es (map_option st (findStream i s))"
    using assms unfolding handle_all_def
    by (induction es arbitrary: s) (simp_all add: life_handle table_ok_handle)
  then show ?thesis
    using table_found(1) by blast
qed

theorem streams_live_their_lives_witness:
  "(let f = sample_headers; g = sample_headers\<lparr>fstream := 3\<rparr>;
        t = handle_all (\<lambda>_ _. None)
          [BeforeSend f, BeginHeaders g, FrameRecv f, FrameRecv sample_data, FrameRecv g, StreamClose 3, BeginHeaders g]
          (new_session [] :: unit session)
    in table_ok t \<and> map_option st (findStream 1 t) = Some HalfClosedRemote \<and> map_option st (findStream 3 t) = Some Idle)"
proof -
  let ?g = "sample_headers\<lparr>fstream := 3\<rparr>"
  let ?es = "[BeforeSend sample_headers, BeginHeaders ?g, FrameRecv sample_headers, FrameRecv sample_data, FrameRecv ?g,
    StreamClose 3, BeginHeaders ?g]"
  have "table_ok (new_session [] :: unit session)" "\<forall>e\<in>set ?es. ids_ok e"
    by (simp_all add: table_ok_def new_session_def ids_ok_def sample_headers_def sample_data_def valid_id_def)
  note lives = streams_live_their_lives [OF this, of "\<lambda>_ _. None"]
  have none: "findStream i (new_session [] :: unit session) = None" for i
    by (simp add: findStream_def new_session_def table_find_def)
  show ?thesis
    using lives [of 1] lives [of 3]
    by (simp add: none Let_def sample_headers_def sample_data_def stream_begun_def after_frame_def has_flag_def
        FLAG_END_STREAM_def)
qed

end
