(* ===== verification/Answer_Collection.thy ===== *)
theory Answer_Collection
  imports Response_Assembly
begin

text \<open>
  What a session collects, as a book of fields and chunks. \<open>book\<close> is the abstract view of the session's
  streams: for every open stream the fields and the chunks nghttp2 has reported for it, and the list of
  what was delivered. \<open>collect\<close> is one event in that view; the callbacks simulate it, whatever is
  interleaved: responses, caches and multimaps on one side, two lists on the other.
\<close>

section \<open>The abstract view\<close>

type_synonym collected = "field list \<times> byte list list"

record book =
  opened :: "32 word \<Rightarrow> collected option"
  delivered :: "collected list"

definition response_head :: "frame \<Rightarrow> bool" where
  "response_head f \<longleftrightarrow> ftype f = HEADERS \<and> fcat f \<noteq> HCAT_HEADERS"

definition note_field :: "field \<Rightarrow> collected \<Rightarrow> collected" where
  "note_field p c = (fst c @ [p], snd c)"

definition note_chunk :: "byte list \<Rightarrow> collected \<Rightarrow> collected" where
  "note_chunk d c = (fst c, snd c @ [d])"

definition begin_book :: "32 word \<Rightarrow> book \<Rightarrow> book" where
  "begin_book i b = (if opened b i = None then b\<lparr>opened := (opened b)(i \<mapsto> ([], []))\<rparr> else b)"

definition amend :: "32 word \<Rightarrow> (collected \<Rightarrow> collected) \<Rightarrow> book \<Rightarrow> book" where
  "amend i h b = b\<lparr>opened := (opened b)(i := map_option h (opened b i))\<rparr>"

fun collect :: "ng_event \<Rightarrow> book \<Rightarrow> book" where
  "collect (BeforeSend f) b = begin_book (fstream f) b"
| "collect (BeginHeaders f) b = begin_book (stream_begun f) b"
| "collect (HeaderField f n v fl) b =
     (if response_head f then amend (fstream f) (note_field (n, v, fl)) b else b)"
| "collect (FrameRecv f) b = b"
| "collect (DataChunk i d) b = amend i (note_chunk d) b"
| "collect (StreamClose i) b =
     (case opened b i of
        None \<Rightarrow> b
      | Some c \<Rightarrow> \<lparr>opened = (opened b)(i := None), delivered = delivered b @ [c]\<rparr>)"

section \<open>Responses and collections\<close>

definition response_of :: "string \<Rightarrow> collected \<Rightarrow> response" where
  "response_of m c = answer m (fst c) (snd c) new_response"

text \<open>Fields and chunks touch different parts of a response, so their order does not matter.\<close>

lemma take_field_add_data: "take_field m p (add_data d r) = add_data d (take_field m p r)"
proof -
  have "override_field m fl (add_data d r) = add_data d (override_field m fl r)" for fl
    unfolding override_field_def by (auto simp: add_rp_header_def add_data_def simp del: index_from_None
      split: option.split)
  then show ?thesis
    by (cases p) (simp add: take_field_def response_field_def save_field_def add_rp_header_def
        set_statusCode_def set_contentLength_def add_data_def Let_def)
qed

lemma take_field_chunks: "take_field m p (fold add_data ds r) = fold add_data ds (take_field m p r)"
  by (induction ds arbitrary: r) (simp_all add: take_field_add_data)

lemma response_of_note:
  "response_of m (note_field p c) = take_field m p (response_of m c)"
  "response_of m (note_chunk d c) = add_data d (response_of m c)"
  "response_of m ([], []) = new_response"
  by (simp_all add: response_of_def note_field_def note_chunk_def answer_def take_field_chunks)

lemma response_of_exact:
  assumes "values_of '':status'' (fst c) = [numeral_of code]" and "code < 2 ^ 31"
  shows "get_statusCode (response_of m c) = int code" and "rp_data (response_of m c) = snd c"
    and "rp_header (response_of [] c) = fold (\<lambda>(k, v). emplace k v) (map as_value (fst c)) []"
  using answer_status [OF assms] unfolding response_of_def
  by (simp_all add: answer_data answer_header) (simp_all add: new_response_def)

section \<open>The simulation\<close>

fun delivered_responses :: "event list \<Rightarrow> response list" where
  "delivered_responses [] = []"
| "delivered_responses (ReadyEvent q r # es) = r # delivered_responses es"
| "delivered_responses (StateChange b # es) = delivered_responses es"
| "delivered_responses (ConnectEvent # es) = delivered_responses es"
| "delivered_responses (StopEvent # es) = delivered_responses es"
| "delivered_responses (SocketShutdown # es) = delivered_responses es"

lemma delivered_append [simp]:
  "delivered_responses (es @ fs) = delivered_responses es @ delivered_responses fs"
  by (induction es rule: delivered_responses.induct) simp_all

definition books :: "'ng session \<Rightarrow> book \<Rightarrow> bool" where
  "books s b \<longleftrightarrow> on_ready s \<noteq> NoReady \<and>
     (\<forall>i. map_option rp (findStream i s) = map_option (response_of (mime s)) (opened b i)) \<and>
     delivered_responses (log s) = map (response_of (mime s)) (delivered b)"

lemma booksD:
  assumes "books s b"
  shows "on_ready s \<noteq> NoReady" and "(findStream i s = None) = (opened b i = None)"
    and "findStream i s = Some x \<Longrightarrow> \<exists>c. opened b i = Some c \<and> rp x = response_of (mime s) c"
    and "delivered_responses (log s) = map (response_of (mime s)) (delivered b)"
proof -
  have "map_option rp (findStream i s) = map_option (response_of (mime s)) (opened b i)"
    using assms by (simp add: books_def)
  then show "(findStream i s = None) = (opened b i = None)"
    and "findStream i s = Some x \<Longrightarrow> \<exists>c. opened b i = Some c \<and> rp x = response_of (mime s) c"
    by (cases "findStream i s"; cases "opened b i"; simp)+
qed (use assms in \<open>simp_all add: books_def\<close>)

lemma books_notify [simp]: "books (notify_state r s) b = books s b"
  by (auto simp: books_def)

text \<open>A change of a stream's response, and one that leaves it alone.\<close>

lemma books_amend:
  assumes "books s b" and "\<And>x. rp (g x) = k (rp x)" and "\<And>c. response_of (mime s) (h c) = k (response_of (mime s) c)"
  shows "books (updStream i g s) (amend i h b)"
proof -
  have "map_option rp (findStream j (updStream i g s)) =
      map_option (response_of (mime s)) (opened (amend i h b) j)" for j
  proof (cases "findStream j s")
    case None
    then show ?thesis
      using booksD(2) [OF assms(1), of j] by (auto simp: findStream_upd amend_def)
  next
    case (Some x)
    then obtain c where "opened b j = Some c" "rp x = response_of (mime s) c"
      using booksD(3) [OF assms(1)] by blast
    then show ?thesis
      using Some assms(2) assms(3) [of c] by (cases "j = i") (simp_all add: findStream_upd amend_def)
  qed
  then show ?thesis
    using assms(1) by (simp add: books_def amend_def)
qed

lemma books_keep: "books s b \<Longrightarrow> (\<And>x. rp (g x) = rp x) \<Longrightarrow> books (updStream i g s) b"
  using books_amend [of s b g "\<lambda>r. r" "\<lambda>c. c" i] by (simp add: amend_def option.map_ident)

lemma books_begin:
  assumes "books s b" and "valid_id (stream_id x)" and "rp x = new_response"
  shows "books (fst (addStream x s)) (begin_book (stream_id x) b)"
  using assms booksD(2) [OF assms(1), of "stream_id x"]
  by (auto simp: books_def findStream_add response_of_note begin_book_def)

lemma books_absent:
  assumes "books s b" and "findStream i s = None"
  shows "amend i h b = b"
  using booksD(2) [OF assms(1), of i] assms(2) by (simp add: amend_def fun_upd_idem)

lemma books_close:
  assumes "books s b" and "findStream i s = Some x"
  shows "books (onStreamClose i s) (collect (StreamClose i) b)"
proof -
  obtain c where c: "opened b i = Some c" "rp x = response_of (mime s) c"
    using booksD(3) [OF assms] by blast
  have find: "findStream j (onStreamClose i s) = (if j = i then None else findStream j s)" for j
    using assms(2) by (simp add: onStreamClose_def findStream_remove findStream_upd)
  have log: "delivered_responses (log (onStreamClose i s)) = delivered_responses (log s) @ [rp x]"
    and "mime (onStreamClose i s) = mime s" and "on_ready (onStreamClose i s) = on_ready s"
    using booksD(1) [OF assms(1)] assms(2)
    by (auto simp: onStreamClose_def ready_hook_def Let_def split: ready_callback.split)
  then show ?thesis
    using assms(1) c by (simp add: books_def find)
qed

lemma handle_collects:
  assumes "books s b" and "ids_ok e"
  shows "books (handle fr e s) (collect e b)"
proof (cases e)
  case (BeginHeaders f)
  have "valid_id (stream_begun f)"
    using assms(2) by (simp add: BeginHeaders ids_ok_def stream_begun_def)
  then show ?thesis
    using books_begin [OF assms(1), of "new_stream (stream_begun f) (fr (ng s) (stream_begun f))"]
    by (simp add: BeginHeaders onBeginHeaders_def createPushStream_def stream_begun_def new_stream_def split: if_splits)
next
  case (BeforeSend f)
  show ?thesis
  proof (cases "findStream (fstream f) s")
    case None
    let ?x = "processOutgoingFrame f (set_state Open (createPushStream fr (fstream f) s))"
    have "stream_id ?x = fstream f" "rp ?x = new_response"
      by (simp_all add: processOutgoingFrame_def set_state_def createPushStream_def new_stream_def)
    then show ?thesis
      using books_begin [OF assms(1), of ?x] assms(2) None BeforeSend by (simp add: beforeFrameSend_def ids_ok_def)
  next
    case (Some x)
    then have "begin_book (fstream f) b = b"
      using booksD(3) [OF assms(1) Some] by (auto simp: begin_book_def)
    moreover have "rp (processOutgoingFrame f y) = rp y" for y
      by (simp add: processOutgoingFrame_def set_state_def)
    ultimately show ?thesis
      using Some BeforeSend books_keep [OF assms(1)] by (simp add: beforeFrameSend_def)
  qed
next
  case (HeaderField f n v fl)
  have "books (updStream i (\<lambda>x. (if st x = Idle then set_state ReservedRemote x else x)
      \<lparr>rq := push_field n v fl (rq x)\<rparr>) s) b" for i
    using assms(1) by (rule books_keep) (simp add: set_state_def)
  with HeaderField show ?thesis
    using assms(1) books_absent [of "notify_state HeadersReceived s" b]
    by (auto simp: onHeader_def Let_def response_head_def take_field_def response_of_note
        intro: books_keep books_amend [where k = "take_field (mime s) (n, v, fl)"] split: option.split)
next
  case (FrameRecv f)
  then show ?thesis
    using assms(1) by (auto simp: onFrameRecv_def intro: books_keep split: option.split)
next
  case (DataChunk i d)
  then show ?thesis
    using assms(1) books_absent [of "notify_state Loading s" b]
    by (auto simp: onDataChunkRecv_def Let_def response_of_note
        intro: books_amend [where k = "add_data d"] split: option.split)
next
  case (StreamClose i)
  show ?thesis
  proof (cases "findStream i s")
    case None
    then have "findStream j (removeStream i s) = findStream j s" for j
      by (simp add: findStream_remove)
    then have "books (removeStream i s) b"
      using assms(1) by (simp add: books_def)
    then show ?thesis
      using None StreamClose booksD(2) [OF assms(1), of i] by (simp add: onStreamClose_def)
  next
    case (Some x)
    then show ?thesis
      using books_close [OF assms(1)] StreamClose by simp
  qed
qed

text \<open>
  C5: The callbacks implement the collecting of answers. For any sequence of events, of any number of
  streams in any interleaving, that begin, fill and close streams (or send frames of them): the open streams of the session are
  those of the book, the response of each is the one its fields and chunks make, and the responses given
  to the ready callback are, in order, those of the streams that were closed. Nothing is lost, nothing
  goes to another stream, nothing is delivered twice.
\<close>

theorem callbacks_collect_answers:
  assumes "books s b" and "\<forall>e\<in>set es. ids_ok e"
  shows "books (handle_all fr es s) (fold collect es b)"
  using assms unfolding handle_all_def
  by (induction es arbitrary: s b) (simp_all add: handle_collects)

definition two_streams :: "ng_event list" where
  "two_streams =
     (let f = sample_headers; g = sample_headers\<lparr>fstream := 3\<rparr> in
      [BeginHeaders f, BeginHeaders g, HeaderField g '':status'' ''404'' 0, HeaderField f '':status'' ''200'' 0,
       DataChunk 3 [7], DataChunk 1 [8], StreamClose 3, DataChunk 1 [9], StreamClose 1])"

lemma two_streams_collected:
  "fold collect two_streams \<lparr>opened = \<lambda>_. None, delivered = []\<rparr> =
     \<lparr>opened = \<lambda>_. None, delivered =
       [([('':status'', ''404'', 0)], [[7]]), ([('':status'', ''200'', 0)], [[8], [9]])]\<rparr>"
  by (simp add: two_streams_def Let_def sample_headers_def stream_begun_def response_head_def amend_def
      note_field_def note_chunk_def begin_book_def fun_eq_iff)

theorem callbacks_collect_answers_witness:
  "books (handle_all (\<lambda>_ _. None) two_streams ((new_session [])\<lparr>on_ready := ReadyThen False\<rparr> :: unit session))
     \<lparr>opened = \<lambda>_. None, delivered =
       [([('':status'', ''404'', 0)], [[7]]), ([('':status'', ''200'', 0)], [[8], [9]])]\<rparr>"
  unfolding two_streams_collected [symmetric]
  by (rule callbacks_collect_answers)
     (simp_all add: books_def new_session_def findStream_def table_find_def two_streams_def Let_def
        ids_ok_def sample_headers_def valid_id_def)

section \<open>One stream among others\<close>

text \<open>What a sequence of events adds to one stream.\<close>

fun gather :: "32 word \<Rightarrow> ng_event \<Rightarrow> collected \<Rightarrow> collected" where
  "gather i (HeaderField f n v fl) c = (if response_head f \<and> fstream f = i then note_field (n, v, fl) c else c)"
| "gather i (DataChunk j d) c = (if j = i then note_chunk d c else c)"
| "gather i (BeforeSend f) c = c"
| "gather i (BeginHeaders f) c = c"
| "gather i (FrameRecv f) c = c"
| "gather i (StreamClose j) c = c"

definition gathered :: "32 word \<Rightarrow> ng_event list \<Rightarrow> collected" where
  "gathered i es = fold (gather i) es ([], [])"

definition holds :: "32 word \<Rightarrow> collected \<Rightarrow> 'ng session \<Rightarrow> bool" where
  "holds i c s \<longleftrightarrow> (\<exists>x. findStream i s = Some x \<and> rp x = response_of (mime s) c)"

lemma holds_notify [simp]: "holds i c (notify_state r s) = holds i c s"
  by (simp add: holds_def)

lemma holds_upd:
  assumes "holds i c s" and "\<And>x. rp (g x) = k (rp x)"
    and "j = i \<Longrightarrow> response_of (mime s) c' = k (response_of (mime s) c)" and "j \<noteq> i \<Longrightarrow> c' = c"
  shows "holds i c' (updStream j g s)"
  using assms by (cases "j = i") (auto simp: holds_def findStream_upd)

lemma holds_add: "holds i c s \<Longrightarrow> holds i c (fst (addStream x s))"
  using table.ins_keeps [of "ucast i" "streams s" _ "add_key x" x]
  by (auto simp: holds_def findStream_def addStream_def split: prod.split)

lemma holds_handle:
  assumes "holds i c s" and "e \<noteq> StreamClose i"
  shows "holds i (gather i e c) (handle fr e s)"
proof (cases e)
  case (HeaderField f n v fl)
  have "holds i c (updStream j (\<lambda>x. (if st x = Idle then set_state ReservedRemote x else x)
      \<lparr>rq := push_field n v fl (rq x)\<rparr>) s)" for j
    using assms(1) by (rule holds_upd [where k = "\<lambda>r. r"]) (simp_all add: set_state_def)
  moreover have "holds i (gather i e c) (updStream (fstream f)
      (\<lambda>x. x\<lparr>rp := response_field (mime s) n v fl (rp x)\<rparr>) (notify_state r s))" if "response_head f" for r
    using assms(1) HeaderField that
    by (intro holds_upd [where k = "take_field (mime s) (n, v, fl)" and c = c])
      (auto simp: take_field_def response_of_note)
  ultimately show ?thesis
    using assms(1) HeaderField
    by (auto simp: onHeader_def Let_def response_head_def holds_def [of i c s] split: option.split)
next
  case (DataChunk j d)
  have "holds i (gather i e c) (updStream j (\<lambda>x. x\<lparr>rp := add_data d (rp x)\<rparr>) (notify_state r s))" for r
    using assms(1) DataChunk
    by (intro holds_upd [where k = "add_data d" and c = c]) (auto simp: response_of_note)
  then show ?thesis
    using assms(1) DataChunk
    by (auto simp: onDataChunkRecv_def Let_def holds_def [of i c s] split: option.split)
next
  case (FrameRecv f)
  have "holds i c (updStream (fstream f) (frame_received f) s)"
    using assms(1) by (rule holds_upd [where k = "\<lambda>r. r"]) simp_all
  then show ?thesis
    using assms(1) FrameRecv by (auto simp: onFrameRecv_def split: option.split)
next
  case (StreamClose j)
  then have "j \<noteq> i"
    using assms(2) by blast
  then show ?thesis
    using assms(1) StreamClose
    by (auto simp: onStreamClose_def holds_def findStream_remove findStream_upd split: option.split)
next
  case (BeforeSend f)
  have "holds i c (updStream (fstream f) (processOutgoingFrame f) s)"
    using assms(1) by (rule holds_upd [where k = "\<lambda>r. r"]) (simp_all add: processOutgoingFrame_def set_state_def)
  then show ?thesis
    using assms(1) BeforeSend by (auto simp: beforeFrameSend_def intro: holds_add split: option.split)
qed (use assms(1) in \<open>simp add: onBeginHeaders_def holds_add\<close>)

lemma holds_handle_all:
  assumes "holds i c s" and "StreamClose i \<notin> set es"
  shows "holds i (fold (gather i) es c) (handle_all fr es s)"
  using assms unfolding handle_all_def
proof (induction es arbitrary: s c)
  case (Cons e es)
  then have "holds i (gather i e c) (handle fr e s)"
    by (intro holds_handle) auto
  from Cons.IH [OF this] Cons.prems(2) show ?case
    by simp
qed simp

text \<open>As long as no stream is closed, only state changes are reported and the session is not stopped.\<close>

definition closes_none :: "ng_event list \<Rightarrow> bool" where
  "closes_none es \<longleftrightarrow> (\<forall>i. StreamClose i \<notin> set es)"

definition only_changes :: "event list \<Rightarrow> bool" where
  "only_changes es \<longleftrightarrow> (\<forall>e\<in>set es. \<exists>b. e = StateChange b)"

lemma quiet_handle_all:
  assumes "closes_none es"
  shows "stopped (handle_all fr es s) = stopped s"
    and "\<exists>ls. log (handle_all fr es s) = log s @ ls \<and> only_changes ls"
proof -
  have one: "stopped (handle fr e s) = stopped s \<and> (\<exists>ls. log (handle fr e s) = log s @ ls \<and> only_changes ls)"
    if "\<forall>i. e \<noteq> StreamClose i" for e and s :: "'a session"
    using that by (cases e) (auto simp: beforeFrameSend_def onBeginHeaders_def onHeader_def onFrameRecv_def onDataChunkRecv_def
        only_changes_def Let_def split: option.split)
  have "stopped (handle_all fr es s) = stopped s \<and>
      (\<exists>ls. log (handle_all fr es s) = log s @ ls \<and> only_changes ls)"
    using assms unfolding handle_all_def
  proof (induction es arbitrary: s)
    case (Cons e es)
    then have "\<forall>i. e \<noteq> StreamClose i" "closes_none es"
      by (auto simp: closes_none_def)
    then show ?case
      using one [of e s] Cons.IH [of "handle fr e s"] by (fastforce simp: only_changes_def)
  qed (simp add: only_changes_def)
  then show "stopped (handle_all fr es s) = stopped s"
    and "\<exists>ls. log (handle_all fr es s) = log s @ ls \<and> only_changes ls"
    by simp_all
qed

text \<open>
  C6: An answer is delivered whole, whatever is interleaved with it. When nghttp2 has reported any events,
  of this stream and of others, and then closes the stream: exactly one response is given to the ready
  callback, after the state change to \<open>Done\<close>; it has the announced status code, every header field
  reported for the stream, in the order of the multimap, and the chunks of its body in the order they
  arrived; the stream is gone afterwards, and a synchronous request has stopped the session.
\<close>

theorem answer_is_delivered:
  assumes "findStream i s = Some x" and "rp x = new_response" and "StreamClose i \<notin> set es"
    and "mime s = []" and "on_state s" and "on_ready s = ReadyThen sync"
    and "values_of '':status'' (fst (gathered i es)) = [numeral_of code]" and "code < 2 ^ 31"
  shows "\<exists>q r. log (handle_all fr (es @ [StreamClose i]) s) =
      log (handle_all fr es s) @ [StateChange (ready_code Done), ReadyEvent q r] @
      (if sync \<and> \<not> stopped (handle_all fr es s) then [SocketShutdown] else []) \<and>
    get_statusCode r = int code \<and> rp_data r = snd (gathered i es) \<and>
    rp_header r = fold (\<lambda>(k, v). emplace k v) (map as_value (fst (gathered i es))) [] \<and>
    findStream i (handle_all fr (es @ [StreamClose i]) s) = None \<and>
    stopped (handle_all fr (es @ [StreamClose i]) s) = (sync \<or> stopped (handle_all fr es s))"
proof -
  let ?t = "handle_all fr es s"
  have "holds i ([], []) s"
    using assms(1,2) by (simp add: holds_def response_of_note)
  from holds_handle_all [OF this assms(3), of fr] obtain y where y: "findStream i ?t = Some y"
      "rp y = response_of [] (gathered i es)"
    by (auto simp: holds_def gathered_def assms(4))
  have "handle_all fr (es @ [StreamClose i]) s = handle fr (StreamClose i) ?t"
    by (simp add: handle_all_def)
  then show ?thesis
    using handle_close [OF y(1), of fr] response_of_exact [OF assms(7,8)] y(2) assms(5,6)
    by (intro exI [of _ "rq y"] exI [of _ "rp y"]) auto
qed

theorem answer_is_delivered_witness:
  "\<exists>q r. log (handle_all (\<lambda>_ _. None) two_streams sample_session) =
      log (handle_all (\<lambda>_ _. None) (butlast two_streams) sample_session) @
        [StateChange 4, ReadyEvent q r] @
        (if True \<and> \<not> stopped (handle_all (\<lambda>_ _. None) (butlast two_streams) sample_session)
         then [SocketShutdown] else []) \<and>
      get_statusCode r = 200 \<and> rp_data r = [[8], [9]]"
proof -
  let ?es = "butlast two_streams"
  have found: "findStream 1 sample_session = Some (new_stream 1 None)"
    and gathered: "gathered 1 ?es = ([('':status'', ''200'', 0)], [[8], [9]])"
    and code: "values_of '':status'' [('':status'', ''200'', 0)] = [numeral_of 200]"
    and last: "two_streams = ?es @ [StreamClose 1]" and open_1: "StreamClose 1 \<notin> set ?es"
    by code_simp+
  have s: "mime sample_session = []" "on_state sample_session" "on_ready sample_session = ReadyThen True"
      "rp (new_stream 1 None) = new_response"
    by (simp_all add: sample_session_def new_session_def new_stream_def)
  from answer_is_delivered [OF found s(4) open_1 s(1-3), of 200 "\<lambda>_ _. None"] show ?thesis
    unfolding gathered last [symmetric] by (auto simp: code ready_code_def)
qed

end
