(* ===== verification/Xhr_Exchange.thy ===== *)
theory Xhr_Exchange
  imports Xhr_Request Answer_Collection
begin

text \<open>
  A whole exchange: after a request was sent, the io service completes reads, writes and ping waits in any
  order (the relation \<open>serve\<close>), and the time limit may pass, until the request's stream is closed; the
  request then holds the answer. No completion on the way can fault.
\<close>

section \<open>Events that arrive\<close>

lemma observe_all_append: "observe_all (es @ fs) x = and_then (observe_all es x) (observe_all fs)"
proof (induction es arbitrary: x)
  case (Cons e es)
  then show ?case by (cases "observe e x") simp_all
qed simp

text \<open>State changes and the shutdown of the socket.\<close>

definition mere_changes :: "event list \<Rightarrow> bool" where
  "mere_changes es \<longleftrightarrow> (\<forall>e\<in>set es. e = SocketShutdown \<or> (\<exists>b. e = StateChange b))"

definition settled :: "event list \<Rightarrow> 'ng impl \<Rightarrow> 'ng impl" where
  "settled es x = (if SocketShutdown \<in> set es then stop_service x else x)"

lemma settled_simps [simp]:
  "xresponse (settled es x) = xresponse x" "readyState (settled es x) = readyState x"
  "xsession (settled es x) = xsession x" "attached (settled es x) = attached x"
  "SocketShutdown \<in> set es \<Longrightarrow> \<not> running (settled es x)"
  by (simp_all add: settled_def)

lemma attached_changes [simp]:
  "attached (x\<lparr>readyState := b\<rparr>) = attached x" "attached (x\<lparr>xresponse := r\<rparr>) = attached x"
  by (simp_all add: attached_def)

lemma stop_service_state: "stop_service (x\<lparr>readyState := b\<rparr>) = (stop_service x)\<lparr>readyState := b\<rparr>"
  by (simp add: stop_service_def)

lemma observe_changes:
  assumes "attached x" and "mere_changes es"
  shows "\<exists>b. observe_all es x = Inr (settled es (x\<lparr>readyState := b\<rparr>))"
  using assms
proof (induction es arbitrary: x)
  case Nil
  have "x = x\<lparr>readyState := readyState x\<rparr>"
    by simp
  then show ?case
    by (metis observe_all.simps(1) settled_def empty_iff empty_set)
next
  case (Cons e es)
  then have es: "mere_changes es"
    by (simp add: mere_changes_def)
  consider "e = SocketShutdown" | b where "e = StateChange b"
    using Cons.prems(2) by (auto simp: mere_changes_def)
  then show ?case
  proof cases
    case 1
    then show ?thesis
      using Cons.IH [of "stop_service x"] es Cons.prems(1)
      by (auto simp: settled_def stop_service_state [symmetric])
  next
    case 2
    then show ?thesis
      using Cons.IH [of "x\<lparr>readyState := b\<rparr>"] es Cons.prems(1)
      by (auto simp: settled_def attached_def)
  qed
qed

lemma observe_shutdowns:
  "set es \<subseteq> {SocketShutdown} \<Longrightarrow> observe_all es x = Inr (settled es x)"
proof (induction es arbitrary: x)
  case (Cons e es)
  then show ?case
    using Cons.IH [of "stop_service x"] by (simp add: settled_def)
qed (simp add: settled_def)

lemma getResponseHeader_first:
  assumes "xresponse x = Some r" and "rp_header r = fold (\<lambda>(k, v). emplace k v) (map as_value hdrs) []"
  shows "getResponseHeader name x = (case values_of name hdrs of [] \<Rightarrow> [] | v # _ \<Rightarrow> v)"
proof -
  have "field_values name (rp_header r) = map snd (filter (\<lambda>p. fst p = name) (map as_value hdrs))"
    using header.vals_built [of name "map as_value hdrs"] assms(2) by (simp add: put_all_emplace)
  moreover have "map hv_value (map snd (filter (\<lambda>p. fst p = name) (map as_value hdrs))) = values_of name hdrs"
    by (induction hdrs) (auto simp: values_of_def as_value_def)
  ultimately have "map hv_value (field_values name (rp_header r)) = values_of name hdrs"
    by simp
  then show ?thesis
    using assms(1) by (auto simp: getResponseHeader_def find_field_values split: list.splits)
qed

section \<open>What the reports do to a stream\<close>

lemma alike_holds: "alike s t \<Longrightarrow> holds i c t = holds i c s"
  by (simp add: alike_def holds_def findStream_def)

lemma holds_stop [simp]: "holds i c (stop s) = holds i c s"
  by (simp add: holds_def)

lemma handle_quiet:
  assumes "\<forall>i. e \<noteq> StreamClose i"
  shows "stopped (handle fr e s) = stopped s" and "\<exists>ls. log (handle fr e s) = log s @ ls \<and> only_changes ls"
proof -
  have "closes_none [e]"
    using assms by (auto simp: closes_none_def)
  from quiet_handle_all [OF this, of fr s]
  show "stopped (handle fr e s) = stopped s" and "\<exists>ls. log (handle fr e s) = log s @ ls \<and> only_changes ls"
    by (simp_all add: handle_all_def)
qed

text \<open>As long as no stream is closed, a stream holds what is gathered for it.\<close>

lemma evolves_gathers:
  "evolves fr es s t \<Longrightarrow> closes_none es \<Longrightarrow>
   (holds i c s \<longrightarrow> holds i (fold (gather i) es c) t) \<and>
   (\<exists>ls. log t = log s @ ls \<and> mere_changes ls \<and> (stopped t \<longleftrightarrow> stopped s \<or> SocketShutdown \<in> set ls))"
proof (induction rule: evolves.induct)
  case (evolves_start s t)
  then show ?case
    using alike_holds [of s t] by (auto simp: alike_def mere_changes_def)
next
  case (evolves_event es s t e u)
  then have e: "\<forall>i. e \<noteq> StreamClose i" "e \<noteq> StreamClose i" "closes_none es"
    by (auto simp: closes_none_def)
  then obtain ls where ls: "log t = log s @ ls" "mere_changes ls" "stopped t \<longleftrightarrow> stopped s \<or> SocketShutdown \<in> set ls"
    and holds: "holds i c s \<longrightarrow> holds i (fold (gather i) es c) t"
    using evolves_event.IH by blast
  obtain ks where ks: "log (handle fr e t) = log t @ ks" "only_changes ks"
    using handle_quiet(2) [OF e(1)] by blast
  have "stopped u = stopped t" "log u = log s @ ls @ ks"
    using evolves_event.hyps(2) handle_quiet(1) [OF e(1), of fr t] ks(1) ls(1) by (simp_all add: alike_def)
  moreover have "mere_changes (ls @ ks)" "SocketShutdown \<notin> set ks"
    using ls(2) ks(2) by (auto simp: mere_changes_def only_changes_def)
  moreover have "holds i c s \<longrightarrow> holds i (fold (gather i) (es @ [e]) c) u"
    using holds holds_handle [OF _ e(2), of "fold (gather i) es c" t fr] alike_holds [OF evolves_event.hyps(2)] by simp
  ultimately show ?case
    using ls(3) by auto
next
  case (evolves_stop es s t u)
  then obtain ls where ls: "log t = log s @ ls" "mere_changes ls" "stopped t \<longleftrightarrow> stopped s \<or> SocketShutdown \<in> set ls"
    and holds: "holds i c s \<longrightarrow> holds i (fold (gather i) es c) t"
    by blast
  have "log u = log s @ ls @ (if stopped t then [] else [SocketShutdown])" "stopped u"
    using evolves_stop.hyps(2) ls(1) by (simp_all add: alike_def)
  moreover have "mere_changes (ls @ (if stopped t then [] else [SocketShutdown]))"
    using ls(2) by (simp add: mere_changes_def)
  moreover have "holds i c s \<longrightarrow> holds i (fold (gather i) es c) u"
    using holds alike_holds [OF evolves_stop.hyps(2)] by simp
  ultimately show ?case
    using ls(3) by (metis Un_iff list.set_intros(1) set_append)
qed

text \<open>Frames that are sent report nothing.\<close>

lemma log_before_send: "log (handle fr (BeforeSend f) s) = log s"
  by (simp add: beforeFrameSend_def split: option.split)

lemma evolves_sends:
  "evolves fr es s t \<Longrightarrow> only_sends es \<Longrightarrow> \<exists>ls. log t = log s @ ls \<and> set ls \<subseteq> {SocketShutdown}"
proof (induction rule: evolves.induct)
  case (evolves_event es s t e u)
  then obtain ls f where "log t = log s @ ls" "set ls \<subseteq> {SocketShutdown}" "e = BeforeSend f"
    by auto
  then show ?case
    using evolves_event.hyps(2) log_before_send [of fr f t] by (auto simp: alike_def simp del: handle.simps)
next
  case (evolves_stop es s t u)
  then obtain ls where "log t = log s @ ls" "set ls \<subseteq> {SocketShutdown}"
    by auto
  then show ?case
    using evolves_stop.hyps(2)
    by (intro exI [of _ "ls @ (if stopped t then [] else [SocketShutdown])"]) (auto simp: alike_def)
qed (auto simp: alike_def)

text \<open>Closing the stream delivers what was gathered.\<close>

lemma evolves_closes:
  assumes "evolves fr (es @ StreamClose i # gs) s t" and "closes_none es" and "only_sends gs"
    and "holds i c s" and "mime s = []" and "on_ready s = ReadyThen halts" and "on_state s" and "\<not> stopped s"
  shows "\<exists>ls q ks. log t = log s @ ls @ [StateChange (ready_code Done),
      ReadyEvent q (response_of [] (fold (gather i) es c))] @ ks \<and>
    mere_changes ls \<and> set ks \<subseteq> {SocketShutdown} \<and> (halts \<longrightarrow> SocketShutdown \<in> set (ls @ ks))"
proof -
  obtain u where u: "evolves fr es s u" "evolves fr gs (handle fr (StreamClose i) u) t"
    using evolves_split [OF assms(1) refl] by blast
  obtain ls where ls: "log u = log s @ ls" "mere_changes ls" "stopped u \<longleftrightarrow> SocketShutdown \<in> set ls"
      "holds i (fold (gather i) es c) u"
    using evolves_gathers [OF u(1) assms(2)] assms(4,8) by blast
  have sets: "mime u = []" "on_ready u = ReadyThen halts" "on_state u"
    using evolves_settings [OF u(1)] assms(5-7) by simp_all
  obtain z where z: "findStream i u = Some z" "rp z = response_of [] (fold (gather i) es c)"
    using ls(4) sets(1) by (auto simp: holds_def)
  obtain ks where ks: "log t = log (handle fr (StreamClose i) u) @ ks" "set ks \<subseteq> {SocketShutdown}"
    using evolves_sends [OF u(2) assms(3)] by blast
  have "log t = log s @ ls @ [StateChange (ready_code Done), ReadyEvent (rq z) (response_of [] (fold (gather i) es c))] @
      (if halts \<and> \<not> stopped u then [SocketShutdown] else []) @ ks"
    using handle_close(2) [OF z(1), of fr] ks(1) ls(1) sets z(2) by simp
  then show ?thesis
    using ls(2,3) ks(2)
    by (intro exI [of _ ls] exI [of _ "rq z"] exI [of _ "(if halts \<and> \<not> stopped u then [SocketShutdown] else []) @ ks"]) auto
qed

section \<open>Running the io service\<close>

text \<open>
  \<open>serve p x es y\<close>: the io service has taken the request from \<open>x\<close> to \<open>y\<close>, completing operations the
  session had started, in any order and with any outcome, and the wait for the time limit if one was set,
  until it was stopped or not; \<open>es\<close> is what nghttp2 has reported meanwhile.
\<close>

definition complete :: "('ng session \<Rightarrow> fault + 'ng session) \<Rightarrow> 'ng impl \<Rightarrow> fault + 'ng impl" where
  "complete h x = and_then (on_session (\<lambda>s. and_then (h s) (\<lambda>t. Inr (t, ()))) x) (\<lambda>(x, _). Inr x)"

inductive serve :: "'ng platform \<Rightarrow> 'ng impl \<Rightarrow> ng_event list \<Rightarrow> 'ng impl \<Rightarrow> bool"
  for p :: "'ng platform" and x :: "'ng impl" where
  serve_start: "serve p x [] x"
| serve_written: "serve p x es y \<Longrightarrow> running y \<Longrightarrow> xsession y = Some s \<Longrightarrow> ops s = as @ WriteOp b # bs \<Longrightarrow>
     complete (\<lambda>s. write_done p failed n (s\<lparr>ops := as @ bs\<rparr>)) y = Inr z \<Longrightarrow>
     serve p x (es @ done_reports p failed (s\<lparr>ops := as @ bs\<rparr>)) z"
| serve_pinged: "serve p x es y \<Longrightarrow> running y \<Longrightarrow> xsession y = Some s \<Longrightarrow> ops s = as @ PingOp # bs \<Longrightarrow>
     complete (\<lambda>s. ping_fired p aborted (s\<lparr>ops := as @ bs\<rparr>)) y = Inr z \<Longrightarrow>
     serve p x (es @ ping_reports p aborted (s\<lparr>ops := as @ bs\<rparr>)) z"
| serve_timed_out: "serve p x es y \<Longrightarrow> running y \<Longrightarrow> timer y \<Longrightarrow> timer_fired False y = Inr (Some z) \<Longrightarrow> serve p x es z"
| serve_read: "serve p x es y \<Longrightarrow> running y \<Longrightarrow> xsession y = Some s \<Longrightarrow> ops s = as @ ReadOp # bs \<Longrightarrow>
     complete (\<lambda>s. read_done p failed buf (s\<lparr>ops := as @ bs\<rparr>)) y = Inr z \<Longrightarrow>
     serve p x (es @ read_reports p failed buf (s\<lparr>ops := as @ bs\<rparr>)) z"

text \<open>All completions are alike: a handler of the session takes it through what is reported.\<close>

lemma evolves_ops: "evolves fr es (s\<lparr>ops := as\<rparr>) t \<Longrightarrow> evolves fr es s t"
  using evolves_trans [OF _ evolves_start [of s "s\<lparr>ops := as\<rparr>"]] by fastforce

lemma serve_moves [consumes 1, case_names start step timed_out]:
  assumes "serve p x es y" and "P [] x"
    and "\<And>es y f s fs z. P es y \<Longrightarrow> running y \<Longrightarrow> xsession y = Some s \<Longrightarrow> complete f y = Inr z \<Longrightarrow>
      (\<And>t. f s = Inr t \<Longrightarrow> evolves (find_raw p) fs s t) \<Longrightarrow> P (es @ fs) z"
    and "\<And>es y z. P es y \<Longrightarrow> timer_fired False y = Inr (Some z) \<Longrightarrow> P es z"
  shows "P es y"
  using assms(1)
proof induction
  case serve_start
  then show ?case by (rule assms(2))
next
  case (serve_written es y s as b bs failed n z)
  show ?case
    by (rule assms(3) [OF serve_written.IH serve_written.hyps(2,3,5)]) (rule evolves_ops [OF write_done_evolves])
next
  case (serve_pinged es y s as bs aborted z)
  show ?case
    by (rule assms(3) [OF serve_pinged.IH serve_pinged.hyps(2,3,5)]) (rule evolves_ops [OF ping_fired_evolves])
next
  case (serve_timed_out es y z)
  then show ?case
    using assms(4) by blast
next
  case (serve_read es y s as bs failed buf z)
  show ?case
    by (rule assms(3) [OF serve_read.IH serve_read.hyps(2,3,5)]) (rule evolves_ops [OF read_done_evolves])
qed

text \<open>
  What is known of a running request between two completions: stream \<open>i\<close> holds what was gathered. The
  first argument tells whether the answer will stop the session.
\<close>

definition holding :: "bool \<Rightarrow> 32 word \<Rightarrow> collected \<Rightarrow> 'ng session \<Rightarrow> bool" where
  "holding halts i c s \<longleftrightarrow> mime s = [] \<and> on_ready s = ReadyThen halts \<and> on_state s \<and> (\<not> stopped s \<longrightarrow> holds i c s)"

definition pending :: "bool \<Rightarrow> 32 word \<Rightarrow> collected \<Rightarrow> 'ng impl \<Rightarrow> bool" where
  "pending halts i c x \<longleftrightarrow> attached x \<and> xresponse x = None \<and>
     (\<exists>s. xsession x = Some s \<and> holding halts i c s \<and> (running x \<longrightarrow> \<not> stopped s))"

lemma completed:
  assumes "complete f x = Inr y" and "xsession x = Some s"
  obtains t where "f s = Inr t" "observe_all (drop (length (log s)) (log t)) (x\<lparr>xsession := Some t\<rparr>) = Inr y"
  using assms by (auto simp: complete_def on_session_def and_then_Inr_iff)

lemma pending_step:
  assumes "pending h i c x" and "running x" and "xsession x = Some s" and "complete f x = Inr y"
    and "\<And>t. f s = Inr t \<Longrightarrow> evolves fr es s t" and "closes_none es"
  shows "pending h i (fold (gather i) es c) y"
proof -
  have s: "holding h i c s" "\<not> stopped s" "attached x" "xresponse x = None"
    using assms(1-3) by (auto simp: pending_def)
  obtain t where t: "f s = Inr t" "observe_all (drop (length (log s)) (log t)) (x\<lparr>xsession := Some t\<rparr>) = Inr y"
    using completed [OF assms(4,3)] by blast
  note evolves = assms(5) [OF t(1)]
  obtain ls where ls: "log t = log s @ ls" "mere_changes ls" "stopped t \<longleftrightarrow> SocketShutdown \<in> set ls"
    and holds: "holds i (fold (gather i) es c) t"
    using evolves_gathers [OF evolves assms(6), of i c] s(1,2) by (auto simp: holding_def)
  obtain b where "y = settled ls (x\<lparr>xsession := Some t, readyState := b\<rparr>)"
    using observe_changes [OF attached_session [OF s(3), of t] ls(2)] t(2) ls(1) by auto
  then show ?thesis
    using s evolves_settings [OF evolves] holds ls(3) by (auto simp: pending_def holding_def)
qed

section \<open>The answer\<close>

definition answered :: "bool \<Rightarrow> collected \<Rightarrow> 'ng impl \<Rightarrow> bool" where
  "answered halts c x \<longleftrightarrow> attached x \<and> xresponse x = Some (response_of [] c) \<and> readyState x = ready_code Done \<and>
     (halts \<longrightarrow> \<not> running x)"

text \<open>Once delivered, the answer stays: nothing that follows without events touches it.\<close>

lemma answered_step:
  assumes "answered halts c x" and "running x" and "xsession x = Some s" and "complete f x = Inr y"
    and "\<And>t. f s = Inr t \<Longrightarrow> evolves fr es s t" and "only_sends es"
  shows "answered halts c y"
proof -
  obtain t where t: "f s = Inr t" "observe_all (drop (length (log s)) (log t)) (x\<lparr>xsession := Some t\<rparr>) = Inr y"
    using completed [OF assms(4,3)] by blast
  obtain ls where "log t = log s @ ls" "set ls \<subseteq> {SocketShutdown}"
    using evolves_sends [OF assms(5) [OF t(1)] assms(6)] by blast
  then have "y = settled ls (x\<lparr>xsession := Some t\<rparr>)"
    using t(2) observe_shutdowns [of ls "x\<lparr>xsession := Some t\<rparr>"] by simp
  then show ?thesis
    using assms(1,2) by (auto simp: answered_def)
qed

text \<open>The handler during which the stream is closed delivers, whatever it sends after that.\<close>

lemma closing_step:
  assumes "pending halts i c x" and "running x" and "xsession x = Some s" and "complete f x = Inr y"
    and "\<And>t. f s = Inr t \<Longrightarrow> evolves fr (es @ StreamClose i # gs) s t" and "closes_none es" and "only_sends gs"
  shows "answered halts (fold (gather i) es c) y"
proof -
  let ?r = "response_of [] (fold (gather i) es c)"
  have s: "holding halts i c s" "\<not> stopped s" "attached x"
    using assms(1-3) by (auto simp: pending_def)
  obtain t where t: "f s = Inr t" "observe_all (drop (length (log s)) (log t)) (x\<lparr>xsession := Some t\<rparr>) = Inr y"
    using completed [OF assms(4,3)] by blast
  have "holds i c s" "mime s = []" "on_ready s = ReadyThen halts" "on_state s"
    using s(1,2) by (simp_all add: holding_def)
  from evolves_closes [OF assms(5) [OF t(1)] assms(6,7) this s(2)]
  obtain ls q ks where log: "log t = log s @ ls @ [StateChange (ready_code Done), ReadyEvent q ?r] @ ks"
    and ls: "mere_changes ls" and ks: "set ks \<subseteq> {SocketShutdown}" and halts: "halts \<longrightarrow> SocketShutdown \<in> set (ls @ ks)"
    by blast
  have x: "attached (x\<lparr>xsession := Some t\<rparr>)"
    using s(3) by simp
  obtain b where b: "observe_all ls (x\<lparr>xsession := Some t\<rparr>) = Inr (settled ls (x\<lparr>xsession := Some t, readyState := b\<rparr>))"
    using observe_changes [OF x ls] by auto
  define w where "w = settled ls (x\<lparr>xsession := Some t, readyState := b\<rparr>)"
  have w: "attached w" "SocketShutdown \<in> set ls \<Longrightarrow> \<not> running w"
    using s(3) by (simp_all add: w_def)
  then have "state_this w" "ready_this w"
    by (simp_all add: attached_def)
  then have y: "y = settled ks (w\<lparr>readyState := ready_code Done, xresponse := Some ?r\<rparr>)"
    using t(2) b observe_shutdowns [OF ks, of "w\<lparr>readyState := ready_code Done, xresponse := Some ?r\<rparr>"]
    by (simp add: log observe_all_append w_def [symmetric])
  have "\<not> running y" if "SocketShutdown \<in> set ls"
    using w(2) [OF that] by (simp add: y settled_def running_def stop_service_def split: option.split)
  then show ?thesis
    using w(1) halts by (auto simp: answered_def y)
qed

section \<open>The time limit\<close>

lemma timed_out_keeps:
  assumes "timer_fired False x = Inr (Some y)"
  shows "pending halts i c x \<Longrightarrow> pending halts i c y" and "answered halts c x \<Longrightarrow> answered halts c y"
proof -
  have keeps: "attached y \<and> xresponse y = xresponse x \<and> readyState y = readyState x \<and> \<not> running y \<and>
      xsession y = map_option stop (xsession x)" if "attached x"
  proof -
    obtain s where s: "xsession x = Some s"
      using \<open>attached x\<close> by (auto simp: attached_def)
    have y: "y = (stop_service x)\<lparr>xsession := Some (stop s), timer := False,
        timeouts := timeouts x + (if timerCallback x then 1 else 0)\<rparr>"
      using timer_fired_eq [OF \<open>attached x\<close> s] assms by simp
    have "attached (stop_service x)"
      using that by simp
    then have "attached y"
      by (simp add: y attached_def)
    moreover have "running y = running (stop_service x)"
      by (simp add: y running_def)
    ultimately show ?thesis
      using s by (simp add: y)
  qed
  show "pending halts i c x \<Longrightarrow> pending halts i c y"
    using keeps by (auto simp: pending_def holding_def)
  show "answered halts c x \<Longrightarrow> answered halts c y"
    using keeps by (simp add: answered_def)
qed

section \<open>All completions\<close>

text \<open>Between two completions the request is pending, and after the one that closes its stream it is answered.\<close>

lemma append_parts:
  "es @ fs = es' @ e # gs \<Longrightarrow>
   (\<exists>hs. es = es' @ e # hs \<and> gs = hs @ fs) \<or> (\<exists>hs. fs = hs @ e # gs \<and> es' = es @ hs)"
  by (auto simp: append_eq_append_conv2 append_eq_Cons_conv Cons_eq_append_conv)

lemma serve_answers:
  assumes "serve p x es y" and "pending halts i c x"
  shows "(closes_none es \<longrightarrow> pending halts i (fold (gather i) es c) y) \<and>
    (\<forall>es' gs. es = es' @ StreamClose i # gs \<longrightarrow> closes_none es' \<longrightarrow> only_sends gs \<longrightarrow>
       answered halts (fold (gather i) es' c) y)"
  using assms(1)
proof (induction rule: serve_moves)
  case start
  then show ?case
    using assms(2) by simp
next
  case (step es y f s fs z)
  have "answered halts (fold (gather i) es' c) z"
    if "es @ fs = es' @ StreamClose i # gs" "closes_none es'" "only_sends gs" for es' gs
  proof -
    from append_parts [OF that(1)]
    consider hs where "es = es' @ StreamClose i # hs" "gs = hs @ fs"
      | hs where "fs = hs @ StreamClose i # gs" "es' = es @ hs"
      by blast
    then show ?thesis
    proof cases
      case 1
      then have "answered halts (fold (gather i) es' c) y" "only_sends fs"
        using step.IH that(2,3) by auto
      then show ?thesis
        using answered_step [OF _ step.hyps] by blast
    next
      case 2
      then have "closes_none es" "closes_none hs"
        using that(2) by (auto simp: closes_none_def)
      then show ?thesis
        using closing_step [OF _ step.hyps(1-3) _ _ that(3), of halts i "fold (gather i) es c" "find_raw p" hs]
          step.IH step.hyps(4) 2 by simp
    qed
  qed
  moreover have "pending halts i (fold (gather i) (es @ fs) c) z" if "closes_none (es @ fs)"
  proof -
    have "closes_none es" "closes_none fs"
      using that by (auto simp: closes_none_def)
    then show ?thesis
      using pending_step [OF _ step.hyps] step.IH by simp
  qed
  ultimately show ?case
    by blast
next
  case (timed_out es y z)
  then show ?case
    using timed_out_keeps by blast
qed

lemma awaiting_pending:
  assumes "attached x" and "xresponse x = None" and "xsession x = Some s" and "awaiting halts s" and "findStream i s = Some r" and "rp r = new_response"
  shows "pending halts i ([], []) x"
proof -
  have "holds i ([], []) s"
    using assms(5,6) by (simp add: holds_def response_of_note)
  then show ?thesis
    using assms(1-4) by (simp add: pending_def holding_def awaiting_def)
qed

text \<open>
  C3: A whole exchange. When a request was sent, and the io service then completes the operations of its
  session in any order (writes of any length that succeed or fail, reads of any bytes, pings, the wait
  for the time limit), while nghttp2 reports any events, on reading and on writing, until it closes the request's
  stream: the request then
  holds the response with the announced status code and the chunks of the body in order, \<open>getResponseHeader\<close>
  returns the first value the server sent under a name (or nothing), and the ready state is \<open>Done\<close>. So it
  stays for as long as nghttp2 reports nothing but frames it sends. In the synchronous mode the io service is stopped, so
  that \<open>send\<close> returns to the user.
\<close>

theorem exchange_delivers:
  assumes "perl_regex (engine env)" and "garbage env = []" and "sendable_url q"
    and "to_upper m \<in> {''GET'', ''POST''}" and "serves p g0"
    and "user_request env p False (Handshaked npn alpn) async lim m (render_url q) hs b = Inr (Some x)"
    and "xsession x = Some s" and "findStream i s \<noteq> None"
    and "serve p x (es @ StreamClose i # fs) y" and "closes_none es" and "only_sends fs"
    and "values_of '':status'' (fst (gathered i es)) = [numeral_of code]" and "code < 2 ^ 31"
  shows "\<exists>a. xresponse y = Some a \<and> get_statusCode a = int code \<and> rp_data a = snd (gathered i es) \<and>
    getResponseHeader name y = (case values_of name (fst (gathered i es)) of [] \<Rightarrow> [] | v # _ \<Rightarrow> v) \<and>
    readyState y = ready_code Done \<and> (async \<or> \<not> running y)"
proof -
  have x: "attached x" "xresponse x = None" "awaiting (\<not> async) s"
    using request_sent [OF assms(1-5), of npn alpn async lim hs b] assms(6,7) by auto
  obtain r where "findStream i s = Some r" "rp r = new_response"
    using assms(8) x(3) blank_find [of s i] by (auto simp: awaiting_def)
  then have "answered (\<not> async) (gathered i es) y"
    using serve_answers [OF assms(9) awaiting_pending [OF x(1,2) assms(7) x(3)]] assms(10,11)
    by (simp add: gathered_def)
  then show ?thesis
    using response_of_exact [OF assms(12,13)] getResponseHeader_first [of y "response_of [] (gathered i es)"]
    by (auto simp: answered_def)
qed

lemma serve_over: "serve p z fs w \<Longrightarrow> \<not> running z \<Longrightarrow> fs = [] \<and> w = z"
  by (induction rule: serve.induct) auto

text \<open>
  C7: When the time limit passes before the answer is complete, the exchange is over. As long as no stream
  was closed the request has no response; once the wait for the time limit has fired its session is
  stopped, and so is its io service, which completes nothing any more: no response arrives later.
\<close>

theorem timeout_ends_the_exchange:
  assumes "perl_regex (engine env)" and "garbage env = []" and "sendable_url q"
    and "to_upper m \<in> {''GET'', ''POST''}" and "serves p g0"
    and "user_request env p False (Handshaked npn alpn) async lim m (render_url q) hs b = Inr (Some x)"
    and "serve p x es y" and "closes_none es" and "timer_fired False y = Inr (Some z)"
  shows "xresponse y = None \<and> xresponse z = None \<and> (\<exists>t. xsession z = Some t \<and> stopped t) \<and> \<not> running z \<and>
    (\<forall>fs w. serve p z fs w \<longrightarrow> fs = [] \<and> w = z)"
proof -
  obtain s i r where x: "attached x" "xresponse x = None" "xsession x = Some s" "awaiting (\<not> async) s"
      "findStream (word_of_int i) s = Some r" "rp r = new_response"
    using request_sent [OF assms(1-5), of npn alpn async lim hs b] assms(6) by auto
  have "pending (\<not> async) (word_of_int i) (fold (gather (word_of_int i)) es ([], [])) y"
    using serve_answers [OF assms(7) awaiting_pending [OF x]] assms(8) by blast
  then obtain t where y: "attached y" "xresponse y = None" "xsession y = Some t"
    by (auto simp: pending_def)
  have "z = (stop_service y)\<lparr>xsession := Some (stop t), timer := False,
      timeouts := timeouts y + (if timerCallback y then 1 else 0)\<rparr>"
    using timer_fired_eq [OF y(1,3)] assms(9) by simp
  then have z: "xresponse z = None" "xsession z = Some (stop t)" "running z = running (stop_service y)"
    using y(2) by (simp_all add: running_def)
  have "fs = [] \<and> w = z" if "serve p z fs w" for fs w
    using serve_over [OF that] z(3) by simp
  then show ?thesis
    using y(2) z by auto
qed

section \<open>No fault on the way\<close>

definition sound :: "('ng \<Rightarrow> byte list) \<Rightarrow> 'ng impl \<Rightarrow> bool" where
  "sound out x \<longleftrightarrow> attached x \<and> (\<exists>s w. xsession x = Some s \<and> run_ok out w s)"

lemma complete_total:
  assumes "attached x" and "xsession x = Some s" and "h s = Inr t" and "run_ok out w t"
  shows "\<exists>y. complete h x = Inr y \<and> sound out y"
proof -
  obtain y where y: "observe_all (drop (length (log s)) (log t)) (x\<lparr>xsession := Some t\<rparr>) = Inr y"
    using attached_observe [OF attached_session [OF assms(1)]] by blast
  then have "attached y" "xsession y = Some t"
    using attached_same [OF observe_all_same] same_requestD(1) [OF observe_all_same] attached_session [OF assms(1)]
    by (blast, fastforce)
  then show ?thesis
    using y assms by (auto simp: complete_def on_session_def sound_def)
qed

text \<open>Every operation that was started can complete, whatever its outcome.\<close>

lemma completions_total:
  assumes "counts_output p out" and "chunk_bound p" and "sound out x" and "xsession x = Some s"
  shows "ops s = as @ WriteOp b # bs \<Longrightarrow>
      \<exists>y. complete (\<lambda>s. write_done p failed n (s\<lparr>ops := as @ bs\<rparr>)) x = Inr y \<and> sound out y"
    and "ops s = as @ ReadOp # bs \<Longrightarrow>
      \<exists>y. complete (\<lambda>s. read_done p failed buf (s\<lparr>ops := as @ bs\<rparr>)) x = Inr y \<and> sound out y"
    and "ops s = as @ PingOp # bs \<Longrightarrow>
      \<exists>y. complete (\<lambda>s. ping_fired p aborted (s\<lparr>ops := as @ bs\<rparr>)) x = Inr y \<and> sound out y"
proof -
  obtain w where x: "attached x" and ok: "run_ok out w s"
    using assms(3,4) by (auto simp: sound_def)
  note total = complete_total [OF x assms(4)]
  {
    assume "ops s = as @ WriteOp b # bs"
    then obtain t where "write_done p failed n (s\<lparr>ops := as @ bs\<rparr>) = Inr t" "run_ok out (w @ b) t"
      using write_done_ok [OF assms(1,2) ok] by blast
    then show "\<exists>y. complete (\<lambda>s. write_done p failed n (s\<lparr>ops := as @ bs\<rparr>)) x = Inr y \<and> sound out y"
      by (rule total)
  }
  {
    assume "ops s = as @ ReadOp # bs"
    then obtain t where "read_done p failed buf (s\<lparr>ops := as @ bs\<rparr>) = Inr t" "run_ok out w t"
      using read_done_ok [OF assms(1,2) ok] by blast
    then show "\<exists>y. complete (\<lambda>s. read_done p failed buf (s\<lparr>ops := as @ bs\<rparr>)) x = Inr y \<and> sound out y"
      by (rule total)
  }
  {
    assume "ops s = as @ PingOp # bs"
    then obtain t where "ping_fired p aborted (s\<lparr>ops := as @ bs\<rparr>) = Inr t" "run_ok out w t"
      using ping_fired_ok [OF assms(1,2) ok] by blast
    then show "\<exists>y. complete (\<lambda>s. ping_fired p aborted (s\<lparr>ops := as @ bs\<rparr>)) x = Inr y \<and> sound out y"
      by (rule total)
  }
qed

lemma timer_total:
  assumes "sound out x"
  shows "\<exists>y. timer_fired cancelled x = Inr (Some y) \<and> sound out y"
proof (cases cancelled)
  case True
  then show ?thesis
    using assms by (simp add: timer_fired_def)
next
  case False
  obtain s w where s: "attached x" "xsession x = Some s" "run_ok out w s"
    using assms by (auto simp: sound_def)
  have "attached ((stop_service x)\<lparr>xsession := Some (stop s), timer := b, timeouts := n\<rparr>)" for b n
    using s(1) attached_stop_service [of x] by (simp add: attached_def)
  then show ?thesis
    using timer_fired_eq [OF s(1,2)] False run_ok_stop [OF run_ok_between [OF s(3)]] by (auto simp: sound_def)
qed

lemma serve_sound:
  assumes "counts_output p out" and "chunk_bound p" and "sound out x" and "serve p x es y"
  shows "sound out y"
  using assms(4)
proof induction
  case serve_start
  then show ?case
    by (rule assms(3))
next
  case (serve_timed_out es y z)
  then show ?case
    using timer_total [of out y False] by simp
qed (use completions_total [OF assms(1,2)] in \<open>metis sum.inject(2)\<close>)+

text \<open>
  C4: An exchange never leaves the language. However the io service has completed the operations of a
  request so far, in whatever order and with whatever bytes and failures, each operation that is still
  under way can complete with any outcome, and so can the wait for the time limit: no pointer is empty,
  no mutex is locked twice, nothing is copied outside a buffer, and the events reach the request.
\<close>

theorem exchange_never_faults:
  assumes "perl_regex (engine env)" and "garbage env = []" and "sendable_url q"
    and "to_upper m \<in> {''GET'', ''POST''}" and "serves p g0"
    and "counts_output p out" and "chunk_bound p" and "out g0 = []"
    and "user_request env p False (Handshaked npn alpn) async lim m (render_url q) hs b = Inr (Some x)"
    and "serve p x es y" and "xsession y = Some s" and "ops s = as @ a # bs"
  shows "(\<exists>z. timer_fired cancelled y = Inr (Some z)) \<and>
    (case a of
      WriteOp d \<Rightarrow> \<exists>z. complete (\<lambda>s. write_done p failed n (s\<lparr>ops := as @ bs\<rparr>)) y = Inr z
    | ReadOp \<Rightarrow> \<exists>z. complete (\<lambda>s. read_done p failed buf (s\<lparr>ops := as @ bs\<rparr>)) y = Inr z
    | PingOp \<Rightarrow> \<exists>z. complete (\<lambda>s. ping_fired p aborted (s\<lparr>ops := as @ bs\<rparr>)) y = Inr z
    | DeadlineOp \<Rightarrow> True)"
proof
  have "sound out x"
    using request_sent [OF assms(1-5), of npn alpn async lim hs b] assms(6-9) by (auto simp: sound_def)
  then have sound: "sound out y"
    by (rule serve_sound [OF assms(6,7) _ assms(10)])
  then show "\<exists>z. timer_fired cancelled y = Inr (Some z)"
    using timer_total by blast
  note total = completions_total [OF assms(6,7) sound assms(11)]
  show "case a of
      WriteOp d \<Rightarrow> \<exists>z. complete (\<lambda>s. write_done p failed n (s\<lparr>ops := as @ bs\<rparr>)) y = Inr z
    | ReadOp \<Rightarrow> \<exists>z. complete (\<lambda>s. read_done p failed buf (s\<lparr>ops := as @ bs\<rparr>)) y = Inr z
    | PingOp \<Rightarrow> \<exists>z. complete (\<lambda>s. ping_fired p aborted (s\<lparr>ops := as @ bs\<rparr>)) y = Inr z
    | DeadlineOp \<Rightarrow> True"
    using total(1) [of as _ bs failed n] total(2) [of as bs failed buf] total(3) [of as bs aborted] assms(12)
    by (cases a) (simp_all, blast+)
qed

section \<open>A concrete exchange\<close>

text \<open>A server that answers stream 1 with a body in two chunks, other frames in between.\<close>

definition opening_events :: "ng_event list" where
  "opening_events =
     [BeginHeaders sample_headers, HeaderField sample_headers '':status'' ''200'' 0,
      HeaderField sample_headers ''server'' ''x'' 0, FrameRecv sample_headers, DataChunk 1 [104],
      FrameRecv (sample_data\<lparr>fstream := 0, ftype := SETTINGS\<rparr>), DataChunk 1 [105], FrameRecv sample_data]"

definition answering_platform :: "(byte list \<times> byte list) platform" where
  "answering_platform = sample_platform
     \<lparr>mem_recv := \<lambda>g buf. (g, opening_events @ [StreamClose 1], int (length buf))\<rparr>"

lemma answering_reports: "fill_reports answering_platform g k = []"
  by (rule fill_reports_none) (simp add: answering_platform_def sample_platform_def)

lemma no_reports: "write_reports answering_platform s = []"
  by (simp add: write_reports_def answering_reports split: option.split)

lemma answering_serves: "serves answering_platform ([], [])"
proof -
  have "never_nomem answering_platform" "accepts_requests answering_platform"
    by (auto simp: never_nomem_def accepts_requests_def answering_platform_def sample_platform_def)
  then show ?thesis
    by (simp add: serves_def sends_settings_def greeted_def sendClientConnectionHeader_def answering_reports)
       (simp add: answering_platform_def sample_platform_def wb_size_value)
qed

lemma answering_laws: "counts_output answering_platform snd" "chunk_bound answering_platform" "snd ([], []) = []"
  using sample_laws(1,2)
  by (auto simp: counts_output_def chunk_bound_def answering_platform_def sample_platform_def)

lemma sample_facts:
  "perl_regex (engine sample_env)" "garbage sample_env = []" "to_upper ''get'' \<in> {''GET'', ''POST''}"
proof -
  have "to_upper ''get'' = ''GET''"
    by code_simp
  then show "perl_regex (engine sample_env)" "garbage sample_env = []" "to_upper ''get'' \<in> {''GET'', ''POST''}"
    by (simp_all add: sample_env_def sample_engine_ok)
qed

definition sample_exchange :: "bool \<Rightarrow> fault + (byte list \<times> byte list) impl option" where
  "sample_exchange async =
     user_request sample_env answering_platform False (Handshaked None (Some ''h2'')) async (500, True) ''get''
       ''https://a-b.org:8443/x?k=v#top'' [(''accept'', ''*/*'')] None"

lemma sample_exchange_eq:
  "sample_exchange async =
     user_request sample_env answering_platform False (Handshaked None (Some ''h2'')) async (500, True) ''get''
       (render_url plain_url) [(''accept'', ''*/*'')] None"
  unfolding sample_exchange_def plain_url_ok(5) ..

text \<open>The request has been sent, and its first read completes.\<close>

lemma sample_sent:
  obtains x s g as bs y where
    "sample_exchange async = Inr (Some x)" and "running x" and "xsession x = Some s" and "ng s = Some g"
    and "ops s = as @ ReadOp # bs" and "findStream 1 s \<noteq> None"
    and "complete (\<lambda>s. read_done answering_platform False [1, 2, 3] (s\<lparr>ops := as @ bs\<rparr>)) x = Inr y"
proof -
  obtain x s g i where x:
      "sample_exchange async = Inr (Some x)" "attached x" "service x = Some \<lparr>svc_stopped = False, jobs = []\<rparr>"
      "xsession x = Some s" "awaiting (\<not> async) s" "i = 1" "ng s = Some g" "findStream (word_of_int i) s \<noteq> None"
      "run_ok snd [] s"
    using request_sent [OF sample_facts(1,2) plain_sendable sample_facts(3) answering_serves, of None
        "Some ''h2''" async "(500, True)" "[(''accept'', ''*/*'')]" None] answering_laws
    unfolding sample_exchange_eq
    by (fastforce simp: answering_platform_def sample_platform_def split: prod.splits)
  obtain as bs where ops: "ops s = as @ ReadOp # bs"
    using x(5) split_list by (fastforce simp: awaiting_def)
  moreover have "running x"
    using x(3) by (simp add: running_def)
  moreover have "sound snd x"
    using x(2,4,9) by (auto simp: sound_def)
  ultimately show ?thesis
    using that x completions_total(2) [OF answering_laws(1,2) _ x(4)] by fastforce
qed

theorem exchange_delivers_witness:
  "(\<exists>x y a. sample_exchange False = Inr (Some x) \<and>
    serve answering_platform x (opening_events @ [StreamClose 1]) y \<and> xresponse y = Some a \<and>
    get_statusCode a = int 200 \<and> rp_data a = [[104], [105]] \<and> getResponseHeader ''server'' y = ''x'' \<and>
    readyState y = ready_code Done \<and> \<not> running y) \<and>
   (\<exists>x y a. sample_exchange True = Inr (Some x) \<and>
    serve answering_platform x (opening_events @ [StreamClose 1]) y \<and> xresponse y = Some a \<and>
    get_statusCode a = int 200 \<and> rp_data a = [[104], [105]] \<and> getResponseHeader ''server'' y = ''x'' \<and>
    readyState y = ready_code Done)"
proof -
  let ?p = "answering_platform" and ?h = "[('':status'', ''200'', 0), (''server'', ''x'', 0)] :: field list"
  have gathered: "gathered 1 opening_events = (?h, [[104], [105]])"
    and code: "values_of '':status'' ?h = [numeral_of 200]" and server: "values_of ''server'' ?h = [''x'']"
    by code_simp+
  have none: "closes_none opening_events"
    by (simp add: closes_none_def opening_events_def)
  have both: "\<exists>x y a. sample_exchange async = Inr (Some x) \<and>
      serve ?p x (opening_events @ [StreamClose 1]) y \<and> xresponse y = Some a \<and>
      get_statusCode a = int 200 \<and> rp_data a = [[104], [105]] \<and> getResponseHeader ''server'' y = ''x'' \<and>
      readyState y = ready_code Done \<and> (async \<or> \<not> running y)" for async
  proof -
    obtain x s g as bs y where x: "sample_exchange async = Inr (Some x)" "running x" "xsession x = Some s"
        "ng s = Some g" "ops s = as @ ReadOp # bs" "findStream 1 s \<noteq> None"
      and y: "complete (\<lambda>s. read_done ?p False [1, 2, 3] (s\<lparr>ops := as @ bs\<rparr>)) x = Inr y"
      by (rule sample_sent)
    have "read_reports ?p False [1, 2, 3] (s\<lparr>ops := as @ bs\<rparr>) = opening_events @ [StreamClose 1]"
      using x(4) by (simp add: read_reports_def answering_platform_def no_reports [unfolded answering_platform_def])
    then have served: "serve ?p x (opening_events @ [StreamClose 1]) y"
      using serve_read [OF serve_start x(2,3,5) y] by simp
    show ?thesis
      using exchange_delivers [OF sample_facts(1,2) plain_sendable sample_facts(3) answering_serves
          x(1) [unfolded sample_exchange_eq] x(3,6) served none _ , of 200 "''server''"] x(1) served
      by (auto simp: gathered code server)
  qed
  show ?thesis
    using both [of False] both [of True] by simp
qed

theorem timeout_ends_the_exchange_witness:
  "\<exists>x z t. sample_exchange True = Inr (Some x) \<and> timer_fired False x = Inr (Some z) \<and> xresponse z = None \<and>
    xsession z = Some t \<and> stopped t \<and> \<not> running z"
proof -
  obtain x s where x: "sample_exchange True = Inr (Some x)" "xsession x = Some s" "attached x"
    using request_sent [OF sample_facts(1,2) plain_sendable sample_facts(3) answering_serves, of None
        "Some ''h2''" True "(500, True)" "[(''accept'', ''*/*'')]" None]
    unfolding sample_exchange_eq by blast
  then obtain z where z: "timer_fired False x = Inr (Some z)"
    using timer_fired_eq by blast
  have "closes_none []"
    by (simp add: closes_none_def)
  then show ?thesis
    using timeout_ends_the_exchange [OF sample_facts(1,2) plain_sendable sample_facts(3) answering_serves
        x(1) [unfolded sample_exchange_eq] serve_start _ z] x(1) z by blast
qed

theorem exchange_never_faults_witness:
  "\<exists>x y z s as bs. sample_exchange True = Inr (Some x) \<and> xsession x = Some s \<and> ops s = as @ ReadOp # bs \<and>
    timer_fired False x = Inr (Some z) \<and>
    complete (\<lambda>s. read_done answering_platform False [7] (s\<lparr>ops := as @ bs\<rparr>)) x = Inr y"
proof -
  let ?p = "answering_platform"
  obtain x s as bs where x: "sample_exchange True = Inr (Some x)" "xsession x = Some s" "ops s = as @ ReadOp # bs"
    using sample_sent [of True] by metis
  have "(\<exists>z. timer_fired False x = Inr (Some z)) \<and>
      (\<exists>y. complete (\<lambda>s. read_done ?p False [7] (s\<lparr>ops := as @ bs\<rparr>)) x = Inr y)"
    using exchange_never_faults [OF sample_facts(1,2) plain_sendable sample_facts(3) answering_serves answering_laws
        x(1) [unfolded sample_exchange_eq] serve_start x(2,3), where cancelled = False and failed = False and buf = "[7]"] by simp
  then show ?thesis
    using x by blast
qed

end
