(* ===== verification/Spec2Isabelle.thy ===== *)
theory Spec2Isabelle
  imports Url_Language Url_Main Hash_Text Scope_Guard Output_Drains Session_Ops Xhr_Guarantees Xhr_Exchange
begin

text \<open>
  A verification development for the XMLHttpRequest library: an HTTP/2 client in C++ with the
  interface of the browser's XMLHttpRequest, on nghttp2, Boost.Asio and OpenSSL.

  \<^bold>\<open>How the program works.\<close> A request (\<open>xmlhttprequest.cpp\<close>) takes its URL apart with regular
  expressions, owns a TLS session (\<open>httptlssession.cpp\<close>, derived from \<open>abstractsession.cpp\<close>) and an
  io service. \<open>send\<close> posts two jobs: one connects the session, one submits the request, whose URL the
  session parses again (\<open>url_parser.cpp\<close>). From then on completions of asynchronous reads and writes
  drive nghttp2, and nghttp2 calls back (\<open>sessioncallbacks.cpp\<close>) to build the response in the stream it
  belongs to (\<open>sessionstream.cpp\<close>, \<open>httpresponse.cpp\<close>). When the stream is closed the ready callback hands
  request and response to the user, and a synchronous request stops its session and its io service.

  \<^bold>\<open>The theories.\<close>
  \<^item> \<open>Base_Prelude\<close>: bytes and characters, decimal numerals, faults (\<open>fault + 'a\<close> and \<open>and_then\<close>).
  \<^item> \<open>Text_Utils\<close>: the string helpers of \<open>utilities.h\<close> and \<open>sessionutil.h\<close>. \<open>parse_uint\<close> is exact.
  \<^item> \<open>Http2_Tokens\<close>: \<open>http2.cpp\<close>, status codes and the token lookup, which is exact.
  \<^item> \<open>Url_Parser\<close>, \<open>Url_Bounds\<close>: \<open>http_parser_parse_url\<close> with its two automata. Parsing inverts rendering, and
    every recorded component lies inside the URL. \<open>Url_Language\<close>: a grammar of URLs (\<open>url_text\<close>); the parser accepts
    exactly the texts of the grammar, as long as their length fits the 16-bit offsets. \<open>Url_Main\<close>: the program
    beside the parser that prints the components of one URL.
  \<^item> \<open>Alpn\<close>: the TLS context and the negotiation of the protocol. The scan of the server's list reads it byte by
    byte, and a read outside it is a fault.
  \<^item> \<open>Js_Functions\<close>, \<open>Base64\<close>: \<open>jsfunctions.h\<close>. URI components and base64, each a round trip through the
    interface \<open>codec\<close>; the encoder equals the encoding of RFC 4648. \<open>Hash_Text\<close>: \<open>encode\<close>, from whose text the
    hash is recovered.
  \<^item> \<open>Http_Messages\<close>: \<open>httpheader.cpp\<close>, \<open>httprequest.cpp\<close>, \<open>httpresponse.cpp\<close>. The sorted field list implements
    the interface \<open>ordered_multimap\<close>.
  \<^item> \<open>Ready_State\<close>: \<open>xmlhttprequeststate.h\<close>.
  \<^item> \<open>Session_State\<close>: streams, the table of streams (the interface \<open>keyed_table\<close>), the fields of
    \<open>AbstractSession::Impl\<close> as the record \<open>session\<close>.
  \<^item> \<open>Session_Callbacks\<close>: the callbacks of nghttp2 as functions of the session; \<open>handle_all\<close> is a sequence of
    them. \<open>Response_Assembly\<close>: what one field or chunk does to a response, streams do not disturb each other,
    every stream of the table lives a life of its own (\<open>life\<close>). \<open>Answer_Collection\<close>: the abstract view \<open>book\<close> of the streams, which the
    callbacks simulate, and the delivery of a whole answer among the events of other streams.
  \<^item> \<open>Session_Core\<close>: the operations of \<open>abstractsession.cpp\<close>. \<open>Session_Run\<close>: the step relation \<open>io_step\<close>, its
    invariant \<open>run_ok\<close>, and what follows from it: the byte stream to the server is intact and no handler
    leaves the language. \<open>Session_Trace\<close>: what nghttp2 reports during each handler, and that the handler takes
    the session through these events (\<open>evolves\<close>). \<open>Scope_Guard\<close>: the guard \<open>Defer\<close>, with which \<open>setupSession\<close> frees nghttp2's table of
    callbacks on every path. \<open>Session_Ops\<close>: at most one read and one write are under way. \<open>Output_Drains\<close>: one write
    returns, and writes that complete in full (\<open>full_write\<close>) bring everything queued to the socket.
  \<^item> \<open>Tls_Session\<close>: \<open>httptlssession.cpp\<close> and \<open>netservice.h\<close>, with the body provider as an instance of the
    interface \<open>data_source\<close>.
  \<^item> \<open>Perl_Regex\<close>: reading and matching the part of Perl's regular expressions that the patterns of the
    program use. \<open>Xhr_Uri\<close>: \<open>proccessUri\<close>, whose two patterns are read and matched there. \<open>Xhr\<close>: the request object and all its member functions. \<open>Xhr_Run\<close>: the step
    relation \<open>xhr_step\<close> and the invariant \<open>attached\<close>. \<open>Xhr_Guarantees\<close>: destruction, reopening,
    authentication, sending again.
  \<^item> \<open>Xhr_Request\<close>: a GET or POST, synchronous or asynchronous, with or without a time limit, from its
    constructor to nghttp2, or to nothing but the wait for its time limit if the connection fails.
    \<open>Xhr_Exchange\<close>: the io service as the relation \<open>serve\<close> (completions in any order, the
    time limit, what nghttp2 reports meanwhile), and the whole exchange: when the stream is closed the request
    holds the response, no completion on the way leaves the language, and the time limit ends it.

  \<^bold>\<open>Correspondence.\<close> A class is a record with the names of its members where they are free, a member
  function a function of the record. A shared pointer into the stream table is the key of the entry. The
  mutex \<open>insideCb\<close> is a flag. The buffers of the session are lists of the bytes in use; a write operation
  that was started is listed in \<open>ops\<close>, and its completion is the handler applied to the session without it; a write may complete with any number of bytes.
  What a session reports (callbacks of the user, shutdown of the socket) is its \<open>log\<close>, which \<open>observe\<close>
  applies to the request. Exceptions, empty pointers, accesses outside a buffer and a mutex locked twice
  are values of \<open>fault\<close>; error codes are results.

  \<^bold>\<open>What is assumed.\<close> nghttp2, \<open>inet_pton\<close> and the value read through the dangling pointer to the method
  name are the record \<open>platform\<close>; \<open>mem_send\<close> and \<open>mem_recv\<close> may report any events, also that a stream is closed.
  Boost.Regex is \<open>regex_engine\<close>; memory for the text of a response is the argument \<open>alloc\<close> of \<open>get_text\<close>; OpenSSL, the resolver and the transport are
  represented by their outcomes, \<open>iconv\<close> by the text it returns. Theorems that need more say so in a
  hypothesis: \<open>counts_output\<close> (only \<open>mem_send\<close> hands out bytes), \<open>chunk_bound\<close> (one chunk fits the buffer),
  \<open>never_nomem\<close>, \<open>drains\<close> (what is queued is handed out), \<open>accepts_requests\<close> (requests get identifiers of 31
  bits), \<open>serves\<close> (with these, a session object is created and hands out the connection preface, meanwhile reporting
  nothing but the frames it sends), \<open>fresh\<close> (the uninitialised length of the write buffer happens to be 0),
  \<open>perl_regex\<close> (any pattern of the modelled syntax is matched as the documentation of Boost.Regex says). Each is instantiated by a
  concrete platform in a witness. Handlers run one at a time on the thread of the io service.

  \<^bold>\<open>Termination.\<close> The loops are structural recursions or have a measure: \<open>fill\<close> because every chunk fills
  the buffer further, \<open>selectProto\<close> because every step goes further in the list; \<open>parse_regex\<close> has fuel for two steps per character of
  the pattern. \<open>run_jobs\<close> runs a given number of
  jobs; two are posted by \<open>send\<close>, so two are enough.

  \<^bold>\<open>Not modelled.\<close> The effect of the user's callbacks beyond being called, except for the stop of a
  synchronous request; what the user's thread does to a request while the second thread of the
  asynchronous mode works on it (\<open>run_mode\<close> records the start of that thread, and that starting another one
  first waits for the previous one; from then on \<open>run_jobs\<close> and \<open>serve\<close> are what this thread does); log
  messages; when a timer fires (only that its wait is under way); \<open>setCipherList\<close> and \<open>utils::string::replace\<close>, which only call OpenSSL and Boost, and the OpenSSL
  calls behind the TLS context; the examples and the tests.
\<close>

end
